theory Spec2Isabelle
  imports Main "HOL-Library.AList"
begin

section \<open>JavaScript values used by the explorer\<close>

text \<open>
  The explorer is written in JavaScript. Strings are modelled as \<^typ>\<open>string\<close>, block
  heights and token amounts as \<^typ>\<open>int\<close> (heights stay far below \<open>2^53\<close>, amounts are
  BigInt values), an absent or \<open>null\<close> property as \<open>None\<close>, and a thrown exception as a
  value of the type \<open>error\<close>.
\<close>

datatype error = RpcError | TypeError | SyntaxError | SqliteError

text \<open>
  \<open>String.prototype.slice(start, end)\<close>: a negative index counts from the end, both
  indices are clamped to the string, and \<open>-0\<close> is \<open>0\<close> (so \<open>s.slice(0, -0)\<close> is
  empty and \<open>s.slice(-0)\<close> is the whole of \<open>s\<close>). \<open>None\<close> is an omitted \<open>end\<close>.
\<close>

definition js_slice :: "string \<Rightarrow> int \<Rightarrow> int option \<Rightarrow> string" where
  "js_slice s start stop =
     (let len = int (length s);
          lo = (if start < 0 then max (len + start) 0 else min start len);
          hi = (case stop of
                  None \<Rightarrow> len
                | Some e \<Rightarrow> (if e < 0 then max (len + e) 0 else min e len))
      in take (nat (hi - lo)) (drop (nat lo) s))"

text \<open>\<open>String.prototype.padStart(targetLength, c)\<close> with a one-character filler.\<close>

definition padStart :: "string \<Rightarrow> nat \<Rightarrow> char \<Rightarrow> string" where
  "padStart s n c = replicate (n - length s) c @ s"

text \<open>\<open>x || d\<close> on strings: the empty string is falsy.\<close>

definition or_else :: "string \<Rightarrow> string \<Rightarrow> string" where
  "or_else s d = (if s = [] then d else s)"

text \<open>
  \<open>x || null\<close> and \<open>x?.f() || null\<close> on an optional string: absent and empty both
  give \<open>null\<close>.
\<close>

definition or_null :: "string option \<Rightarrow> string option" where
  "or_null x = (case x of None \<Rightarrow> None | Some s \<Rightarrow> (if s = [] then None else Some s))"

text \<open>\<open>xs[i]\<close>: \<open>undefined\<close> past the end of the array.\<close>

definition nth_opt :: "'a list \<Rightarrow> nat \<Rightarrow> 'a option" where
  "nth_opt xs i = (if i < length xs then Some (xs ! i) else None)"

text \<open>\<open>toLowerCase\<close> on the ASCII letters (addresses and topics are hex strings).\<close>

definition lower_char :: "char \<Rightarrow> char" where
  "lower_char c =
     (let n = (of_char c :: nat) in if 65 \<le> n \<and> n \<le> 90 then char_of (n + 32) else c)"

definition toLowerCase :: "string \<Rightarrow> string" where
  "toLowerCase s = map lower_char s"

text \<open>\<open>s.replace(/0+$/, '')\<close> and \<open>s.replace(/\.$/, '')\<close>.\<close>

definition strip_trailing_zeros :: "string \<Rightarrow> string" where
  "strip_trailing_zeros s = rev (dropWhile (\<lambda>c. c = CHR ''0'') (rev s))"

definition strip_final_dot :: "string \<Rightarrow> string" where
  "strip_final_dot s = (if s \<noteq> [] \<and> last s = CHR ''.'' then butlast s else s)"

text \<open>
  The white space that \<open>parseInt\<close> and \<open>BigInt\<close> skip, among the code units below
  256: tab, line feed, vertical tab, form feed, carriage return, space and no-break
  space. \<open>trim_end\<close> removes it from the end of a string.
\<close>

definition is_space :: "char \<Rightarrow> bool" where
  "is_space c = ((of_char c :: nat) \<in> {9, 10, 11, 12, 13, 32, 160})"

definition trim_end :: "string \<Rightarrow> string" where
  "trim_end s = rev (dropWhile is_space (rev s))"

subsection \<open>Decimal and hexadecimal numerals\<close>

definition digit_char :: "nat \<Rightarrow> char" where
  "digit_char d = char_of (48 + d)"

fun dec_digits :: "nat \<Rightarrow> string" where
  "dec_digits n = (if n < 10 then [digit_char n] else dec_digits (n div 10) @ [digit_char (n mod 10)])"

declare dec_digits.simps [simp del]

text \<open>\<open>Number.prototype.toString()\<close> on an integer and \<open>BigInt.prototype.toString()\<close>.\<close>

definition toString :: "int \<Rightarrow> string" where
  "toString n = (if n < 0 then CHR ''-'' # dec_digits (nat (- n)) else dec_digits (nat n))"

definition is_digit :: "char \<Rightarrow> bool" where
  "is_digit c = (let n = (of_char c :: nat) in 48 \<le> n \<and> n \<le> 57)"

definition digit_val :: "char \<Rightarrow> nat" where
  "digit_val c = of_char c - 48"

definition hex_val :: "char \<Rightarrow> nat option" where
  "hex_val c =
     (let n = (of_char c :: nat) in
      if 48 \<le> n \<and> n \<le> 57 then Some (n - 48)
      else if 97 \<le> n \<and> n \<le> 102 then Some (n - 87)
      else if 65 \<le> n \<and> n \<le> 70 then Some (n - 55)
      else None)"

fun hex_acc :: "nat \<Rightarrow> string \<Rightarrow> nat option" where
  "hex_acc acc [] = Some acc"
| "hex_acc acc (c # cs) =
     (case hex_val c of None \<Rightarrow> None | Some d \<Rightarrow> hex_acc (16 * acc + d) cs)"

text \<open>
  \<open>BigInt('0x' + h)\<close>: white space at the end of the string is trimmed, and what is
  left after \<open>0x\<close> must be one or more hexadecimal digits; their value is the result.
  Anything else is a \<open>SyntaxError\<close>.
\<close>

definition BigInt_hex :: "string \<Rightarrow> error + int" where
  "BigInt_hex h =
     (let digits = trim_end h in
      if digits = [] then Inl SyntaxError
      else (case hex_acc 0 digits of None \<Rightarrow> Inl SyntaxError | Some n \<Rightarrow> Inr (int n)))"

section \<open>The standalone explorer (server.js): decoding and formatting helpers\<close>

text \<open>
  \<^verbatim>\<open>
  function decodeUint256(hex) {
      if (!hex || hex === '0x') return '0';
      return BigInt('0x' + hex).toString();
  }
  function decodeAddress(hex) {
      if (!hex || hex.length < 40) return '';
      return hex.slice(-40);
  }
  function formatTokenAmount(amount, decimals) {
      const str = amount.toString().padStart(decimals + 1, '0');
      const whole = str.slice(0, -decimals) || '0';
      const frac = str.slice(-decimals);
      const formatted = frac ? `${whole}.${frac.replace(/0+$/, '')}` : whole;
      return formatted.replace(/\.$/, '');
  }
  \<close>
\<close>

definition decodeUint256 :: "string option \<Rightarrow> error + string" where
  "decodeUint256 hex =
     (case or_null hex of
        None \<Rightarrow> Inr ''0''
      | Some h \<Rightarrow>
          (if h = ''0x'' then Inr ''0''
           else (case BigInt_hex h of Inl e \<Rightarrow> Inl e | Inr n \<Rightarrow> Inr (toString n))))"

definition decodeAddress :: "string option \<Rightarrow> string" where
  "decodeAddress hex =
     (case or_null hex of
        None \<Rightarrow> ''''
      | Some h \<Rightarrow> (if length h < 40 then '''' else js_slice h (- 40) None))"

definition formatTokenAmount :: "string \<Rightarrow> nat \<Rightarrow> string" where
  "formatTokenAmount amount decimals =
     (let str = padStart amount (decimals + 1) CHR ''0'';
          whole = or_else (js_slice str 0 (Some (- int decimals))) ''0'';
          frac = js_slice str (- int decimals) None;
          formatted = (if frac \<noteq> [] then whole @ ''.'' @ strip_trailing_zeros frac else whole)
      in strip_final_dot formatted)"

subsection \<open>Token holders\<close>

text \<open>
  \<^verbatim>\<open>
  const TRANSFER_TOPIC = 'ddf252ad1be2c89b69c2b068fc378daa952ba7f163c4a11628f55a4df523b3ef';
  app.get('/api/token/:addr/holders', async (req, res) => {
    try {
      ...
      const results = await rpcCall('searchlogs', [0, toBlock, { addresses: [addr] },
                                                   { topics: [TRANSFER_TOPIC] }]);
      const balances = {};
      for (const result of results) {
        for (const log of (result.log || [])) {
          if (log.topics && log.topics[0] === TRANSFER_TOPIC) {
            const from = decodeAddress(log.topics[1]);
            const to = decodeAddress(log.topics[2]);
            const value = BigInt('0x' + (log.data || '0'));
            if (from !== '0000000000000000000000000000000000000000') {
              balances[from] = (balances[from] || BigInt(0)) - value;
            }
            if (to !== '0000000000000000000000000000000000000000') {
              balances[to] = (balances[to] || BigInt(0)) + value;
            }
          }
        }
      }
      ...
      const holders = await Promise.all(
        Object.entries(balances)
          .filter(([_, bal]) => bal > 0)
          .sort((a, b) => (BigInt(b[1]) > BigInt(a[1]) ? 1 : -1))
          .map(async ([hexAddr, balance]) => ({ address: hexAddr, ...,
               balance: balance.toString(), ... })));
      res.json({ address: addr, totalHolders: holders.length, ..., holders: holders });
    } catch (err) {
      res.status(500).json({ error: err.message });
    }
  });
  \<close>
  The object \<open>balances\<close> is an association list in insertion order, which is the
  order of \<open>Object.entries\<close> for these keys. \<open>token_holders\<close> is the list of entries
  after \<open>filter\<close>; \<open>sort\<close> reorders it and \<open>map\<close> adds the display fields to each
  entry. An exception (\<open>BigInt\<close> on a payload that is not hexadecimal) ends the request
  with status 500.
\<close>

record search_log =
  sl_topics :: "string list option"
  sl_data :: "string option"

record search_result =
  sr_log :: "search_log list option"

definition TRANSFER_TOPIC_BARE :: string where
  "TRANSFER_TOPIC_BARE = ''ddf252ad1be2c89b69c2b068fc378daa952ba7f163c4a11628f55a4df523b3ef''"

definition ZERO_ADDRESS :: string where
  "ZERO_ADDRESS = ''0000000000000000000000000000000000000000''"

type_synonym balances = "(string \<times> int) list"

text \<open>\<open>balances[a] || BigInt(0)\<close>\<close>

definition balance_or_zero :: "balances \<Rightarrow> string \<Rightarrow> int" where
  "balance_or_zero b a = (case map_of b a of None \<Rightarrow> 0 | Some v \<Rightarrow> v)"

definition tally_log :: "search_log \<Rightarrow> balances \<Rightarrow> error + balances" where
  "tally_log log b =
     (case sl_topics log of
        None \<Rightarrow> Inr b
      | Some topics \<Rightarrow>
          (if nth_opt topics 0 = Some TRANSFER_TOPIC_BARE then
             (let from = decodeAddress (nth_opt topics 1);
                  to = decodeAddress (nth_opt topics 2)
              in case BigInt_hex (case or_null (sl_data log) of None \<Rightarrow> ''0'' | Some d \<Rightarrow> d) of
                   Inl e \<Rightarrow> Inl e
                 | Inr v \<Rightarrow>
                     (let b1 = (if from \<noteq> ZERO_ADDRESS
                                then AList.update from (balance_or_zero b from - v) b else b);
                          b2 = (if to \<noteq> ZERO_ADDRESS
                                then AList.update to (balance_or_zero b1 to + v) b1 else b1)
                      in Inr b2))
           else Inr b))"

fun tally_logs :: "search_log list \<Rightarrow> balances \<Rightarrow> error + balances" where
  "tally_logs [] b = Inr b"
| "tally_logs (log # logs) b =
     (case tally_log log b of Inl e \<Rightarrow> Inl e | Inr b' \<Rightarrow> tally_logs logs b')"

fun tally_results :: "search_result list \<Rightarrow> balances \<Rightarrow> error + balances" where
  "tally_results [] b = Inr b"
| "tally_results (result # results) b =
     (case tally_logs (case sr_log result of None \<Rightarrow> [] | Some logs \<Rightarrow> logs) b of
        Inl e \<Rightarrow> Inl e
      | Inr b' \<Rightarrow> tally_results results b')"

definition token_holders :: "search_result list \<Rightarrow> error + (string \<times> int) list" where
  "token_holders results =
     (case tally_results results [] of
        Inl e \<Rightarrow> Inl e
      | Inr b \<Rightarrow> Inr (filter (\<lambda>entry. snd entry > 0) b))"

section \<open>The store (db.js)\<close>

text \<open>
  Each SQLite table is the list of its rows in insertion order. The columns \<open>id\<close>
  (\<open>AUTOINCREMENT\<close>) and \<open>created_at\<close> (the wall clock) are left out: a row's position
  in the list stands for its \<open>id\<close>.

  The schema declares four foreign keys, and better-sqlite3 opens a database with their
  enforcement switched on (db.js does not switch it off):
  \<^item> \<open>transactions.block_height\<close> references \<open>blocks(height)\<close>;
  \<^item> \<open>event_logs.tx_hash\<close> references \<open>transactions(hash)\<close>;
  \<^item> \<open>token_transfers.tx_hash\<close> references \<open>transactions(hash)\<close>;
  \<^item> \<open>token_transfers.token_address\<close> references \<open>tokens(address)\<close>.
  The constraints are immediate: a statement that would leave a violation behind raises
  \<open>FOREIGN KEY constraint failed\<close> (\<open>SqliteError\<close>) and writes nothing.
\<close>

record block_row =
  bk_height :: int
  bk_hash :: string
  bk_parent_hash :: "string option"
  bk_timestamp :: int
  bk_miner :: "string option"
  bk_difficulty :: string
  bk_gas_limit :: string
  bk_gas_used :: string
  bk_tx_count :: nat
  bk_size :: int
  bk_nonce :: string
  bk_is_pos :: int
  bk_block_reward :: string

record tx_row =
  tr_hash :: string
  tr_block_height :: int
  tr_block_hash :: string
  tr_tx_index :: nat
  tr_from_address :: "string option"
  tr_to_address :: "string option"
  tr_value :: string
  tr_gas :: string
  tr_gas_price :: string
  tr_gas_used :: string
  tr_nonce :: int
  tr_input :: string
  tr_status :: int
  tr_contract_address :: "string option"
  tr_timestamp :: int

record log_row =
  lg_tx_hash :: string
  lg_log_index :: nat
  lg_address :: "string option"
  lg_topic0 :: "string option"
  lg_topic1 :: "string option"
  lg_topic2 :: "string option"
  lg_topic3 :: "string option"
  lg_data :: string
  lg_block_height :: int
  lg_timestamp :: int
  lg_decoded_name :: "string option"
  lg_decoded_args :: "string option"

record token_row =
  tk_address :: string
  tk_name :: string
  tk_symbol :: string
  tk_decimals :: int
  tk_total_supply :: string
  tk_owner :: "string option"

record transfer_row =
  tt_tx_hash :: string
  tt_log_index :: nat
  tt_token_address :: string
  tt_from_address :: string
  tt_to_address :: string
  tt_value :: "string option"
  tt_block_height :: int
  tt_timestamp :: int

record store =
  blocks :: "block_row list"
  transactions :: "tx_row list"
  event_logs :: "log_row list"
  tokens :: "token_row list"
  token_transfers :: "transfer_row list"
  indexer_state :: "(string \<times> string) list"

definition empty_store :: store where
  "empty_store = \<lparr>blocks = [], transactions = [], event_logs = [], tokens = [],
     token_transfers = [], indexer_state = []\<rparr>"

definition has_block :: "store \<Rightarrow> int \<Rightarrow> bool" where
  "has_block st h = list_ex (\<lambda>r. bk_height r = h) (blocks st)"

definition has_tx :: "store \<Rightarrow> string \<Rightarrow> bool" where
  "has_tx st h = list_ex (\<lambda>r. tr_hash r = h) (transactions st)"

definition has_token :: "store \<Rightarrow> string \<Rightarrow> bool" where
  "has_token st a = list_ex (\<lambda>r. tk_address r = a) (tokens st)"

text \<open>
  A statement that deletes parent rows fails when one of the references \<open>refs\<close> had a
  parent before the statement and has none after it.
\<close>

definition fk_lost :: "('k \<Rightarrow> bool) \<Rightarrow> ('k \<Rightarrow> bool) \<Rightarrow> 'k list \<Rightarrow> bool" where
  "fk_lost before after refs = list_ex (\<lambda>k. before k \<and> \<not> after k) refs"

text \<open>
  The prepared statements. \<open>INSERT OR REPLACE\<close> deletes every row that conflicts with
  the new one on the primary key or on a \<open>UNIQUE\<close> column (\<open>blocks.hash\<close>) and then
  inserts; the statement fails when a deleted row leaves a referencing row without a
  parent, or when the new row references a parent that is not there. A plain \<open>INSERT\<close>
  into a table whose only key is the synthetic \<open>id\<close> appends, and fails when the new
  row references a parent that is not there.
\<close>

definition insertBlock :: "block_row \<Rightarrow> store \<Rightarrow> error + store" where
  "insertBlock row st =
     (let st' = st\<lparr>blocks :=
                  filter (\<lambda>r. bk_height r \<noteq> bk_height row \<and> bk_hash r \<noteq> bk_hash row) (blocks st)
                    @ [row]\<rparr>
      in if fk_lost (has_block st) (has_block st') (map tr_block_height (transactions st))
         then Inl SqliteError else Inr st')"

definition insertTx :: "tx_row \<Rightarrow> store \<Rightarrow> error + store" where
  "insertTx row st =
     (let st' = st\<lparr>transactions :=
                  filter (\<lambda>r. tr_hash r \<noteq> tr_hash row) (transactions st) @ [row]\<rparr>
      in if \<not> has_block st (tr_block_height row)
            \<or> fk_lost (has_tx st) (has_tx st')
                 (map lg_tx_hash (event_logs st) @ map tt_tx_hash (token_transfers st))
         then Inl SqliteError else Inr st')"

definition insertLog :: "log_row \<Rightarrow> store \<Rightarrow> error + store" where
  "insertLog row st =
     (if \<not> has_tx st (lg_tx_hash row) then Inl SqliteError
      else Inr (st\<lparr>event_logs := event_logs st @ [row]\<rparr>))"

definition insertToken :: "token_row \<Rightarrow> store \<Rightarrow> error + store" where
  "insertToken row st =
     (let st' = st\<lparr>tokens :=
                  filter (\<lambda>r. tk_address r \<noteq> tk_address row) (tokens st) @ [row]\<rparr>
      in if fk_lost (has_token st) (has_token st') (map tt_token_address (token_transfers st))
         then Inl SqliteError else Inr st')"

definition insertTransfer :: "transfer_row \<Rightarrow> store \<Rightarrow> error + store" where
  "insertTransfer row st =
     (if \<not> has_tx st (tt_tx_hash row) \<or> \<not> has_token st (tt_token_address row)
      then Inl SqliteError
      else Inr (st\<lparr>token_transfers := token_transfers st @ [row]\<rparr>))"

definition getIndexerState :: "store \<Rightarrow> string \<Rightarrow> string option" where
  "getIndexerState st k = map_of (indexer_state st) k"

definition setIndexerState :: "string \<Rightarrow> string \<Rightarrow> store \<Rightarrow> store" where
  "setIndexerState k v st =
     st\<lparr>indexer_state := filter (\<lambda>kv. fst kv \<noteq> k) (indexer_state st) @ [(k, v)]\<rparr>"

definition getToken :: "store \<Rightarrow> string \<Rightarrow> token_row option" where
  "getToken st a = find (\<lambda>r. tk_address r = a) (tokens st)"

section \<open>The node's answers (rpc.js)\<close>

text \<open>
  The payloads of the JSON-RPC calls, with the fields the indexer reads. A field that
  the indexer guards with \<open>?.\<close>, \<open>||\<close> or a truthiness test is optional.
  \<open>vo_value_sat\<close> is \<open>Math.round((vout.value || 0) * 1e8)\<close>, a floating-point
  product that is taken as given; \<open>b_difficulty\<close> is \<open>block.difficulty.toString()\<close>
  of a floating-point number, likewise. A transaction's \<open>vin\<close> is left out: the indexer
  reads it and assigns nothing from it.
\<close>

record script_pub_key =
  spk_address :: "string option"
  spk_addresses :: "string list option"
  spk_type :: "string option"
  spk_hex :: "string option"

record rpc_vout =
  vo_value_sat :: int
  vo_scriptPubKey :: "script_pub_key option"

record rpc_tx =
  tx_txid :: string
  tx_vout :: "rpc_vout list option"

text \<open>An entry of \<open>block.tx\<close>: a transaction object (verbosity 2) or a bare txid.\<close>

datatype tx_entry = TxObject rpc_tx | TxId string

record rpc_block =
  b_hash :: string
  b_height :: int
  b_previousblockhash :: "string option"
  b_time :: int
  b_miner :: "string option"
  b_difficulty :: "string option"
  b_tx :: "tx_entry list option"
  b_size :: "int option"
  b_nonce :: "int option"
  b_flags :: "string option"

record rpc_log =
  l_address :: "string option"
  l_topics :: "string list option"
  l_data :: "string option"

record rpc_receipt =
  r_log :: "rpc_log list option"
  r_contractAddress :: "string option"

text \<open>
  The node: what each call of \<open>WATTxRPC\<close> resolves to (\<open>Inr\<close>) or rejects with
  (\<open>Inl\<close>). \<open>getBlock\<close> and \<open>getTransactionReceipt\<close> may resolve to \<open>null\<close>. The
  token probes resolve to what the node documents for \<open>qrc20name\<close>, \<open>qrc20symbol\<close>,
  \<open>qrc20decimals\<close> and \<open>qrc20totalsupply\<close>: strings and a number.
\<close>

record node =
  getBlockCount :: "error + int"
  getBlock :: "int \<Rightarrow> error + rpc_block option"
  getTransactionReceipt :: "string \<Rightarrow> error + rpc_receipt list option"
  getTokenName :: "string \<Rightarrow> error + string"
  getTokenSymbol :: "string \<Rightarrow> error + string"
  getTokenDecimals :: "string \<Rightarrow> error + int"
  getTokenTotalSupply :: "string \<Rightarrow> error + string"

datatype rpc_call =
  CallTokenName string
| CallTokenSymbol string
| CallTokenDecimals string
| CallTokenTotalSupply string

section \<open>The indexer (indexer.js)\<close>

definition TRANSFER_TOPIC :: string where
  "TRANSFER_TOPIC = ''0xddf252ad1be2c89b69c2b068fc378daa952ba7f163c4a11628f55a4df523b3ef''"

definition batchSize :: int where
  "batchSize = 10"

subsection \<open>The cursor\<close>

definition dec_val :: "string \<Rightarrow> nat" where
  "dec_val ds = foldl (\<lambda>a c. 10 * a + digit_val c) 0 ds"

fun hex_prefix_val :: "nat \<Rightarrow> string \<Rightarrow> nat" where
  "hex_prefix_val acc [] = acc"
| "hex_prefix_val acc (c # cs) =
     (case hex_val c of None \<Rightarrow> acc | Some d \<Rightarrow> hex_prefix_val (16 * acc + d) cs)"

text \<open>
  \<open>parseInt(s)\<close> without a radix: leading white space and a sign are skipped, a
  \<open>0x\<close> or \<open>0X\<close> prefix selects base 16, and the longest prefix of digits is read.
  \<open>None\<close> is \<open>NaN\<close> (no digit).
\<close>

definition parse_magnitude :: "string \<Rightarrow> nat option" where
  "parse_magnitude u =
     (if take 2 u = ''0x'' \<or> take 2 u = ''0X'' then
        (case drop 2 u of
           [] \<Rightarrow> None
         | c # cs \<Rightarrow> (if hex_val c = None then None else Some (hex_prefix_val 0 (c # cs))))
      else
        (let ds = takeWhile is_digit u in if ds = [] then None else Some (dec_val ds)))"

definition parseInt :: "string \<Rightarrow> int option" where
  "parseInt s =
     (let t = dropWhile is_space s in
      case t of
        [] \<Rightarrow> None
      | c # r \<Rightarrow>
          (if c = CHR ''-'' then map_option (\<lambda>n. - int n) (parse_magnitude r)
           else if c = CHR ''+'' then map_option int (parse_magnitude r)
           else map_option int (parse_magnitude t)))"

text \<open>
  \<^verbatim>\<open>
  getLastIndexedBlock() {
    const row = statements.getIndexerState.get('last_block');
    return row ? parseInt(row.value) : -1;
  }
  setLastIndexedBlock(height) {
    statements.setIndexerState.run('last_block', height.toString());
  }
  \<close>
  The result \<open>None\<close> of \<open>getLastIndexedBlock\<close> is \<open>NaN\<close>.
\<close>

definition getLastIndexedBlock :: "store \<Rightarrow> int option" where
  "getLastIndexedBlock st =
     (case getIndexerState st ''last_block'' of None \<Rightarrow> Some (- 1) | Some v \<Rightarrow> parseInt v)"

definition setLastIndexedBlock :: "int \<Rightarrow> store \<Rightarrow> store" where
  "setLastIndexedBlock height st = setIndexerState ''last_block'' (toString height) st"

subsection \<open>Token discovery\<close>

text \<open>
  \<^verbatim>\<open>
  async detectToken(address) {
    const existing = statements.getToken.get(address.toLowerCase());
    if (existing) return existing;
    try {
      const [name, symbol, decimals, totalSupply] = await Promise.all([
        this.rpc.getTokenName(address).catch(() => 'Unknown'),
        this.rpc.getTokenSymbol(address).catch(() => '???'),
        this.rpc.getTokenDecimals(address).catch(() => 18),
        this.rpc.getTokenTotalSupply(address).catch(() => '0')
      ]);
      statements.insertToken.run(address.toLowerCase(), name, symbol,
        Number(decimals), totalSupply.toString(), null);
      return { address, name, symbol, decimals, totalSupply };
    } catch (e) {
      return null;
    }
  }
  \<close>
  The result is the value returned, the calls issued to the node in order, and the
  store. With the probes' answers typed as the node documents them, \<open>Number(decimals)\<close>
  and \<open>totalSupply.toString()\<close> are the identity; the \<open>catch\<close> is reached when
  \<open>insertToken\<close> raises.
\<close>

definition probe_or :: "error + 'a \<Rightarrow> 'a \<Rightarrow> 'a" where
  "probe_or answer placeholder = (case answer of Inl e \<Rightarrow> placeholder | Inr v \<Rightarrow> v)"

definition detectToken :: "node \<Rightarrow> string \<Rightarrow> store \<Rightarrow> token_row option \<times> rpc_call list \<times> store" where
  "detectToken rpc address st =
     (case getToken st (toLowerCase address) of
        Some existing \<Rightarrow> (Some existing, [], st)
      | None \<Rightarrow>
          (let name = probe_or (getTokenName rpc address) ''Unknown'';
               symbol = probe_or (getTokenSymbol rpc address) ''???'';
               decimals = probe_or (getTokenDecimals rpc address) 18;
               totalSupply = probe_or (getTokenTotalSupply rpc address) ''0'';
               calls = [CallTokenName address, CallTokenSymbol address,
                        CallTokenDecimals address, CallTokenTotalSupply address]
           in case insertToken \<lparr>tk_address = toLowerCase address, tk_name = name,
                     tk_symbol = symbol, tk_decimals = decimals,
                     tk_total_supply = totalSupply, tk_owner = None\<rparr> st of
                Inl e \<Rightarrow> (None, calls, st)
              | Inr st' \<Rightarrow>
                  (Some \<lparr>tk_address = address, tk_name = name, tk_symbol = symbol,
                         tk_decimals = decimals, tk_total_supply = totalSupply,
                         tk_owner = None\<rparr>,
                   calls, st')))"

subsection \<open>Logs and receipts\<close>

text \<open>
  \<^verbatim>\<open>
  async indexLog(txid, log, block, logIndex) {
    const topics = log.topics || [];
    statements.insertLog.run(txid, logIndex, log.address?.toLowerCase() || null,
      topics[0] || null, topics[1] || null, topics[2] || null, topics[3] || null,
      log.data || '0x', block.height, block.time, null, null);
    const TRANSFER_TOPIC = '0xddf252ad...f523b3ef';
    if (topics[0] === TRANSFER_TOPIC && topics.length >= 3) {
      const tokenAddress = log.address.toLowerCase();
      const from = '0x' + topics[1].slice(-40).toLowerCase();
      const to = '0x' + topics[2].slice(-40).toLowerCase();
      const value = log.data;
      await this.detectToken(tokenAddress);
      statements.insertTransfer.run(txid, logIndex, tokenAddress, from, to, value,
        block.height, block.time);
    }
  }
  \<close>
  The first component of the result is the exception the call ends with, if any, and
  the second the store it leaves: a statement that raises writes nothing, and
  \<open>log.address.toLowerCase()\<close> is a \<open>TypeError\<close> on a log without an address, after
  the EventLog row has been written.
\<close>

definition log_row_of :: "string \<Rightarrow> rpc_log \<Rightarrow> rpc_block \<Rightarrow> nat \<Rightarrow> log_row" where
  "log_row_of txid log block logIndex =
     (let topics = (case l_topics log of None \<Rightarrow> [] | Some ts \<Rightarrow> ts) in
      \<lparr>lg_tx_hash = txid, lg_log_index = logIndex,
       lg_address = or_null (map_option toLowerCase (l_address log)),
       lg_topic0 = or_null (nth_opt topics 0), lg_topic1 = or_null (nth_opt topics 1),
       lg_topic2 = or_null (nth_opt topics 2), lg_topic3 = or_null (nth_opt topics 3),
       lg_data = (case or_null (l_data log) of None \<Rightarrow> ''0x'' | Some d \<Rightarrow> d),
       lg_block_height = b_height block, lg_timestamp = b_time block,
       lg_decoded_name = None, lg_decoded_args = None\<rparr>)"

definition transfer_row_of :: "string \<Rightarrow> rpc_log \<Rightarrow> string \<Rightarrow> rpc_block \<Rightarrow> nat \<Rightarrow> transfer_row" where
  "transfer_row_of txid log tokenAddress block logIndex =
     (let topics = (case l_topics log of None \<Rightarrow> [] | Some ts \<Rightarrow> ts) in
      \<lparr>tt_tx_hash = txid, tt_log_index = logIndex, tt_token_address = tokenAddress,
       tt_from_address = ''0x'' @ toLowerCase (js_slice (topics ! 1) (- 40) None),
       tt_to_address = ''0x'' @ toLowerCase (js_slice (topics ! 2) (- 40) None),
       tt_value = l_data log,
       tt_block_height = b_height block, tt_timestamp = b_time block\<rparr>)"

definition is_transfer_log :: "rpc_log \<Rightarrow> bool" where
  "is_transfer_log log =
     (let topics = (case l_topics log of None \<Rightarrow> [] | Some ts \<Rightarrow> ts) in
      nth_opt topics 0 = Some TRANSFER_TOPIC \<and> length topics \<ge> 3)"

definition indexLog :: "node \<Rightarrow> string \<Rightarrow> rpc_log \<Rightarrow> rpc_block \<Rightarrow> nat \<Rightarrow> store \<Rightarrow> error option \<times> store" where
  "indexLog rpc txid log block logIndex st =
     (case insertLog (log_row_of txid log block logIndex) st of
        Inl e \<Rightarrow> (Some e, st)
      | Inr st1 \<Rightarrow>
          (if is_transfer_log log then
             (case l_address log of
                None \<Rightarrow> (Some TypeError, st1)
              | Some a \<Rightarrow>
                  (let tokenAddress = toLowerCase a;
                       st2 = snd (snd (detectToken rpc tokenAddress st1))
                   in case insertTransfer
                             (transfer_row_of txid log tokenAddress block logIndex) st2 of
                        Inl e \<Rightarrow> (Some e, st2)
                      | Inr st3 \<Rightarrow> (None, st3)))
           else (None, st1)))"

text \<open>
  \<^verbatim>\<open>
  async indexReceipt(txid, block) {
    try {
      const receipts = await this.rpc.getTransactionReceipt(txid);
      if (!receipts || !Array.isArray(receipts)) return;
      for (const receipt of receipts) {
        if (receipt.log && Array.isArray(receipt.log)) {
          for (let i = 0; i < receipt.log.length; i++) {
            const log = receipt.log[i];
            await this.indexLog(txid, log, block, i);
          }
        }
        if (receipt.contractAddress) {
          await this.detectToken(receipt.contractAddress);
        }
      }
    } catch (e) {
      // Receipt not available for this tx type
    }
  }
  \<close>
  Every statement run here is committed on its own (no transaction is open), so an
  exception leaves the rows written before it.
\<close>

fun indexLogs :: "node \<Rightarrow> string \<Rightarrow> rpc_block \<Rightarrow> nat \<Rightarrow> rpc_log list \<Rightarrow> store \<Rightarrow> error option \<times> store" where
  "indexLogs rpc txid block i [] st = (None, st)"
| "indexLogs rpc txid block i (log # logs) st =
     (case indexLog rpc txid log block i st of
        (Some e, st') \<Rightarrow> (Some e, st')
      | (None, st') \<Rightarrow> indexLogs rpc txid block (Suc i) logs st')"

fun indexReceipts :: "node \<Rightarrow> string \<Rightarrow> rpc_block \<Rightarrow> rpc_receipt list \<Rightarrow> store \<Rightarrow> error option \<times> store" where
  "indexReceipts rpc txid block [] st = (None, st)"
| "indexReceipts rpc txid block (receipt # receipts) st =
     (case (case r_log receipt of
              None \<Rightarrow> (None, st)
            | Some logs \<Rightarrow> indexLogs rpc txid block 0 logs st) of
        (Some e, st1) \<Rightarrow> (Some e, st1)
      | (None, st1) \<Rightarrow>
          indexReceipts rpc txid block receipts
            (case or_null (r_contractAddress receipt) of
               None \<Rightarrow> st1
             | Some a \<Rightarrow> snd (snd (detectToken rpc a st1))))"

definition indexReceipt :: "node \<Rightarrow> string \<Rightarrow> rpc_block \<Rightarrow> store \<Rightarrow> store" where
  "indexReceipt rpc txid block st =
     (case getTransactionReceipt rpc txid of
        Inl e \<Rightarrow> st
      | Inr None \<Rightarrow> st
      | Inr (Some receipts) \<Rightarrow> snd (indexReceipts rpc txid block receipts st))"

subsection \<open>Transactions and blocks\<close>

text \<open>
  \<^verbatim>\<open>
  indexTransaction(tx, block, txIndex) {
    let fromAddress = null; let toAddress = null; let value = '0';
    ...
    if (tx.vout && tx.vout[0]) {
      const vout = tx.vout[0];
      if (vout.scriptPubKey?.address) {
        toAddress = vout.scriptPubKey.address;
      } else if (vout.scriptPubKey?.addresses && vout.scriptPubKey.addresses[0]) {
        toAddress = vout.scriptPubKey.addresses[0];
      }
      value = Math.round((vout.value || 0) * 1e8).toString();
    }
    let contractAddress = null; let inputData = '0x';
    for (const vout of (tx.vout || [])) {
      if (vout.scriptPubKey?.type === 'create') {
        contractAddress = vout.scriptPubKey.address || null;
      } else if (vout.scriptPubKey?.type === 'call') {
        inputData = vout.scriptPubKey.hex || '0x';
      }
    }
    statements.insertTx.run(tx.txid, block.height, block.hash, txIndex,
      fromAddress?.toLowerCase() || null, toAddress?.toLowerCase() || null, value,
      '0', '0', '0', 0, inputData, 1, contractAddress?.toLowerCase() || null, block.time);
    this.indexReceipt(tx.txid, block);
  }
  \<close>
  \<open>indexTransaction\<close> is synchronous and \<open>indexReceipt\<close> is \<open>async\<close>: the call in the
  last line is not awaited. It runs up to its first \<open>await\<close>, the request for the
  receipt, and returns a promise that nobody holds; its writes happen when the node
  answers. The model returns the store after \<open>insertTx\<close>; the pending call is the pair
  \<open>(txid, block)\<close>, collected by \<open>indexBlock\<close> below.
\<close>

definition primary_recipient :: "rpc_vout \<Rightarrow> string option" where
  "primary_recipient vout =
     (case vo_scriptPubKey vout of
        None \<Rightarrow> None
      | Some spk \<Rightarrow>
          (case or_null (spk_address spk) of
             Some a \<Rightarrow> Some a
           | None \<Rightarrow>
               (case spk_addresses spk of
                  None \<Rightarrow> None
                | Some as \<Rightarrow> or_null (nth_opt as 0))))"

fun scan_vouts :: "rpc_vout list \<Rightarrow> string option \<times> string \<Rightarrow> string option \<times> string" where
  "scan_vouts [] acc = acc"
| "scan_vouts (vout # vouts) (contractAddress, inputData) =
     scan_vouts vouts
       (case vo_scriptPubKey vout of
          None \<Rightarrow> (contractAddress, inputData)
        | Some spk \<Rightarrow>
            (if spk_type spk = Some ''create'' then (or_null (spk_address spk), inputData)
             else if spk_type spk = Some ''call'' then
               (contractAddress, (case or_null (spk_hex spk) of None \<Rightarrow> ''0x'' | Some h \<Rightarrow> h))
             else (contractAddress, inputData)))"

definition tx_row_of :: "rpc_tx \<Rightarrow> rpc_block \<Rightarrow> nat \<Rightarrow> tx_row" where
  "tx_row_of tx block txIndex =
     (let vouts = (case tx_vout tx of None \<Rightarrow> [] | Some vs \<Rightarrow> vs);
          toAddress = (case vouts of [] \<Rightarrow> None | vout # _ \<Rightarrow> primary_recipient vout);
          val = (case vouts of [] \<Rightarrow> ''0'' | vout # _ \<Rightarrow> toString (vo_value_sat vout));
          (contractAddress, inputData) = scan_vouts vouts (None, ''0x'')
      in \<lparr>tr_hash = tx_txid tx, tr_block_height = b_height block, tr_block_hash = b_hash block,
          tr_tx_index = txIndex, tr_from_address = None,
          tr_to_address = or_null (map_option toLowerCase toAddress), tr_value = val,
          tr_gas = ''0'', tr_gas_price = ''0'', tr_gas_used = ''0'', tr_nonce = 0,
          tr_input = inputData, tr_status = 1,
          tr_contract_address = or_null (map_option toLowerCase contractAddress),
          tr_timestamp = b_time block\<rparr>)"

definition indexTransaction :: "rpc_tx \<Rightarrow> rpc_block \<Rightarrow> nat \<Rightarrow> store \<Rightarrow> error + store" where
  "indexTransaction tx block txIndex st = insertTx (tx_row_of tx block txIndex) st"

text \<open>
  \<^verbatim>\<open>
  async indexBlock(height) {
    const block = await this.rpc.getBlock(height, 2);
    if (!block) { console.warn(`Block ${height} not found`); return; }
    const isPos = block.flags?.includes('proof-of-stake') ? 1 : 0;
    const insertBlock = db.transaction(() => {
      statements.insertBlock.run(height, block.hash, block.previousblockhash || null,
        block.time, block.miner || null, block.difficulty?.toString() || '0', '0', '0',
        block.tx?.length || 0, block.size || 0, block.nonce?.toString() || '0', isPos, '0');
      if (block.tx && Array.isArray(block.tx)) {
        for (let i = 0; i < block.tx.length; i++) {
          const tx = block.tx[i];
          if (typeof tx === 'object') { this.indexTransaction(tx, block, i); }
        }
      }
    });
    insertBlock();
  }
  \<close>
  The state of the indexer between two awaits is the committed store and the
  \<open>indexReceipt\<close> calls that have been started and have not finished. The function
  passed to \<open>db.transaction\<close> is synchronous, so the transaction commits the Block row
  and the Transaction rows, and the receipts started inside it write after the commit.
  When a statement inside the transaction raises, the transaction is rolled back and
  \<open>indexBlock\<close> rejects: the caller keeps the state it had. (\<open>insertTx\<close> raises for
  the first transaction of a block or for none, since all rows of a block carry the same
  \<open>block_height\<close>; so no receipt has been started when the transaction fails.)
\<close>

type_synonym receipt_task = "string \<times> rpc_block"

record world =
  w_db :: store
  w_pending :: "receipt_task list"

fun str_includes :: "string \<Rightarrow> string \<Rightarrow> bool" where
  "str_includes [] needle = (needle = [])"
| "str_includes (c # cs) needle =
     (take (length needle) (c # cs) = needle \<or> str_includes cs needle)"

definition block_row_of :: "int \<Rightarrow> rpc_block \<Rightarrow> block_row" where
  "block_row_of height block =
     \<lparr>bk_height = height, bk_hash = b_hash block,
      bk_parent_hash = or_null (b_previousblockhash block),
      bk_timestamp = b_time block, bk_miner = or_null (b_miner block),
      bk_difficulty = (case or_null (b_difficulty block) of None \<Rightarrow> ''0'' | Some d \<Rightarrow> d),
      bk_gas_limit = ''0'', bk_gas_used = ''0'',
      bk_tx_count = (case b_tx block of None \<Rightarrow> 0 | Some txs \<Rightarrow> length txs),
      bk_size = (case b_size block of None \<Rightarrow> 0 | Some n \<Rightarrow> n),
      bk_nonce = (case b_nonce block of None \<Rightarrow> ''0'' | Some n \<Rightarrow> toString n),
      bk_is_pos = (case b_flags block of
                     None \<Rightarrow> 0
                   | Some f \<Rightarrow> (if str_includes f ''proof-of-stake'' then 1 else 0)),
      bk_block_reward = ''0''\<rparr>"

fun indexTransactions :: "rpc_block \<Rightarrow> nat \<Rightarrow> tx_entry list \<Rightarrow> world \<Rightarrow> error + world" where
  "indexTransactions block i [] w = Inr w"
| "indexTransactions block i (TxObject tx # txs) w =
     (case indexTransaction tx block i (w_db w) of
        Inl e \<Rightarrow> Inl e
      | Inr st \<Rightarrow>
          indexTransactions block (Suc i) txs
            \<lparr>w_db = st, w_pending = w_pending w @ [(tx_txid tx, block)]\<rparr>)"
| "indexTransactions block i (TxId h # txs) w = indexTransactions block (Suc i) txs w"

definition indexBlock :: "node \<Rightarrow> int \<Rightarrow> world \<Rightarrow> error + world" where
  "indexBlock rpc height w =
     (case getBlock rpc height of
        Inl e \<Rightarrow> Inl e
      | Inr None \<Rightarrow> Inr w
      | Inr (Some block) \<Rightarrow>
          (case insertBlock (block_row_of height block) (w_db w) of
             Inl e \<Rightarrow> Inl e
           | Inr st \<Rightarrow>
               indexTransactions block 0 (case b_tx block of None \<Rightarrow> [] | Some txs \<Rightarrow> txs)
                 (w\<lparr>w_db := st\<rparr>)))"

text \<open>
  A pending \<open>indexReceipt\<close> call runs when the node has answered. \<open>settle\<close> runs the
  pending calls one after the other, in the order they were started.
\<close>

definition run_task :: "node \<Rightarrow> receipt_task \<Rightarrow> store \<Rightarrow> store" where
  "run_task rpc task st = indexReceipt rpc (fst task) (snd task) st"

definition settle :: "node \<Rightarrow> world \<Rightarrow> world" where
  "settle rpc w = \<lparr>w_db = fold (run_task rpc) (w_pending w) (w_db w), w_pending = []\<rparr>"

subsection \<open>The sync loop\<close>

text \<open>
  \<^verbatim>\<open>
  async sync() {
    while (this.isRunning) {
      try {
        const chainHeight = await this.rpc.getBlockCount();
        const lastIndexed = this.getLastIndexedBlock();
        if (lastIndexed >= chainHeight) { await this.sleep(2000); continue; }
        const startBlock = lastIndexed + 1;
        const endBlock = Math.min(startBlock + this.batchSize - 1, chainHeight);
        for (let height = startBlock; height <= endBlock; height++) {
          await this.indexBlock(height);
        }
        this.setLastIndexedBlock(endBlock);
      } catch (error) {
        console.error('Indexer error:', error.message);
        await this.sleep(5000);
      }
    }
  }
  \<close>
  \<open>indexRange\<close> is the \<open>for\<close> loop; it also returns the heights it passed to
  \<open>indexBlock\<close>, in order. \<open>sync_iteration\<close> is one pass through the body of the
  \<open>while\<close> loop. When \<open>lastIndexed\<close> is \<open>NaN\<close> every comparison is false: the
  \<open>for\<close> loop does not run and the cursor is set to \<open>NaN.toString()\<close>.
\<close>

function indexRange :: "node \<Rightarrow> int \<Rightarrow> int \<Rightarrow> world \<Rightarrow> error option \<times> int list \<times> world" where
  "indexRange rpc height endBlock w =
     (if height \<le> endBlock then
        (case indexBlock rpc height w of
           Inl e \<Rightarrow> (Some e, [height], w)
         | Inr w' \<Rightarrow>
             (case indexRange rpc (height + 1) endBlock w' of
                (r, hs, w'') \<Rightarrow> (r, height # hs, w'')))
      else (None, [], w))"
  by pat_completeness auto
termination
  by (relation "measure (\<lambda>(rpc, height, endBlock, w). nat (endBlock + 1 - height))") auto

declare indexRange.simps [simp del]

datatype outcome = Idle | Indexed int int | IndexedNaN | BackingOff error

definition sync_iteration :: "node \<Rightarrow> world \<Rightarrow> outcome \<times> int list \<times> world" where
  "sync_iteration rpc w =
     (case getBlockCount rpc of
        Inl e \<Rightarrow> (BackingOff e, [], w)
      | Inr chainHeight \<Rightarrow>
          (case getLastIndexedBlock (w_db w) of
             None \<Rightarrow> (IndexedNaN, [], w\<lparr>w_db := setIndexerState ''last_block'' ''NaN'' (w_db w)\<rparr>)
           | Some lastIndexed \<Rightarrow>
               (if lastIndexed \<ge> chainHeight then (Idle, [], w)
                else
                  (let startBlock = lastIndexed + 1;
                       endBlock = min (startBlock + batchSize - 1) chainHeight
                   in case indexRange rpc startBlock endBlock w of
                        (Some e, hs, w') \<Rightarrow> (BackingOff e, hs, w')
                      | (None, hs, w') \<Rightarrow>
                          (Indexed startBlock endBlock, hs,
                           w'\<lparr>w_db := setLastIndexedBlock endBlock (w_db w')\<rparr>)))))"

section \<open>Reference definitions and example data\<close>

subsection \<open>Token amounts, as the specification words them\<close>

text \<open>
  The rendering of \<open>n / 10^d\<close>: the integer quotient, and when the remainder is not
  zero a point and the remainder written with \<open>d\<close> digits (\<open>last_digits\<close>, zero-padded
  on the left) without its trailing zeros.
\<close>

fun last_digits :: "nat \<Rightarrow> nat \<Rightarrow> string" where
  "last_digits 0 n = []"
| "last_digits (Suc d) n = last_digits d (n div 10) @ [digit_char (n mod 10)]"

definition render_amount :: "nat \<Rightarrow> nat \<Rightarrow> string" where
  "render_amount n d =
     (let q = n div 10 ^ d; r = n mod 10 ^ d in
      if r = 0 then dec_digits q
      else dec_digits q @ ''.'' @ strip_trailing_zeros (last_digits d r))"

subsection \<open>The holders ledger, as the specification words it\<close>














subsection \<open>An example node\<close>

text \<open>
  A node whose chain has the heights 0 to 3 with a gap at height 2. Block 1 holds one
  transaction, a contract call whose receipt carries one Transfer log of the token
  contract; the payload of the log is the 32-byte encoding of 1000. The node answers the
  symbol and decimals probes and fails the name and total supply probes.
\<close>

definition example_token :: string where
  "example_token = ''0xC0FFEE0000000000000000000000000000000001''"

definition example_transfer_log :: rpc_log where
  "example_transfer_log =
     \<lparr>l_address = Some example_token,
      l_topics = Some [TRANSFER_TOPIC,
        ''0x000000000000000000000000AAAAAAAAAAAAAAAAAAAAAAAAAAAAAAAAAAAAAAAA'',
        ''0x000000000000000000000000bbbbbbbbbbbbbbbbbbbbbbbbbbbbbbbbbbbbbbbb''],
      l_data = Some ''0x00000000000000000000000000000000000000000000000000000000000003e8''\<rparr>"

definition example_tx :: rpc_tx where
  "example_tx =
     \<lparr>tx_txid = ''tx1'',
      tx_vout = Some [\<lparr>vo_value_sat = 0,
                       vo_scriptPubKey = Some \<lparr>spk_address = Some example_token,
                         spk_addresses = None, spk_type = Some ''call'',
                         spk_hex = Some ''a9059cbb''\<rparr>\<rparr>]\<rparr>"

definition example_block :: "int \<Rightarrow> string \<Rightarrow> tx_entry list \<Rightarrow> rpc_block" where
  "example_block h hash txs =
     \<lparr>b_hash = hash, b_height = h, b_previousblockhash = None, b_time = 1700000000 + h,
      b_miner = None, b_difficulty = Some ''1.5'', b_tx = Some txs, b_size = Some 300,
      b_nonce = Some 0, b_flags = Some ''proof-of-stake''\<rparr>"

definition example_block1 :: rpc_block where
  "example_block1 = example_block 1 ''hash1'' [TxObject example_tx]"

definition example_node :: node where
  "example_node =
     \<lparr>getBlockCount = Inr 3,
      getBlock = (\<lambda>h. if h = 0 then Inr (Some (example_block 0 ''hash0'' []))
                     else if h = 1 then Inr (Some example_block1)
                     else if h = 2 then Inr None
                     else if h = 3 then Inr (Some (example_block 3 ''hash3'' []))
                     else Inl RpcError),
      getTransactionReceipt = (\<lambda>t. if t = ''tx1''
                     then Inr (Some [\<lparr>r_log = Some [example_transfer_log], r_contractAddress = None\<rparr>])
                     else Inl RpcError),
      getTokenName = (\<lambda>a. Inl RpcError),
      getTokenSymbol = (\<lambda>a. Inr ''TOK''),
      getTokenDecimals = (\<lambda>a. Inr 8),
      getTokenTotalSupply = (\<lambda>a. Inl RpcError)\<rparr>"

text \<open>The same node when the fetch of block 3 fails.\<close>

definition flaky_node :: node where
  "flaky_node =
     example_node\<lparr>getBlock := (\<lambda>h. if h = 3 then Inl RpcError else getBlock example_node h)\<rparr>"

definition example_world :: world where
  "example_world = \<lparr>w_db = setLastIndexedBlock 0 empty_store, w_pending = []\<rparr>"

definition fresh_world :: world where
  "fresh_world = \<lparr>w_db = empty_store, w_pending = []\<rparr>"

text \<open>
  The rows the indexer writes for block 1 of the example node, spelled out;
  \<open>example_committed\<close> is the store when the transaction of \<open>indexBlock\<close> has
  committed them on the empty store, and \<open>example_store1\<close> the store when the receipt
  of the block's transaction has been indexed too.
\<close>

definition example_block_row :: block_row where
  "example_block_row =
     \<lparr>bk_height = 1, bk_hash = ''hash1'', bk_parent_hash = None, bk_timestamp = 1700000001,
      bk_miner = None, bk_difficulty = ''1.5'', bk_gas_limit = ''0'', bk_gas_used = ''0'',
      bk_tx_count = 1, bk_size = 300, bk_nonce = ''0'', bk_is_pos = 1, bk_block_reward = ''0''\<rparr>"

text \<open>The Block row of block 3, which holds no transaction.\<close>

definition example_block_row3 :: block_row where
  "example_block_row3 =
     \<lparr>bk_height = 3, bk_hash = ''hash3'', bk_parent_hash = None, bk_timestamp = 1700000003,
      bk_miner = None, bk_difficulty = ''1.5'', bk_gas_limit = ''0'', bk_gas_used = ''0'',
      bk_tx_count = 0, bk_size = 300, bk_nonce = ''0'', bk_is_pos = 1, bk_block_reward = ''0''\<rparr>"

definition example_tx_row :: tx_row where
  "example_tx_row =
     \<lparr>tr_hash = ''tx1'', tr_block_height = 1, tr_block_hash = ''hash1'', tr_tx_index = 0,
      tr_from_address = None,
      tr_to_address = Some ''0xc0ffee0000000000000000000000000000000001'',
      tr_value = ''0'', tr_gas = ''0'', tr_gas_price = ''0'', tr_gas_used = ''0'',
      tr_nonce = 0, tr_input = ''a9059cbb'', tr_status = 1, tr_contract_address = None,
      tr_timestamp = 1700000001\<rparr>"

definition example_log_row :: log_row where
  "example_log_row =
     \<lparr>lg_tx_hash = ''tx1'', lg_log_index = 0,
      lg_address = Some ''0xc0ffee0000000000000000000000000000000001'',
      lg_topic0 = Some TRANSFER_TOPIC,
      lg_topic1 = Some ''0x000000000000000000000000AAAAAAAAAAAAAAAAAAAAAAAAAAAAAAAAAAAAAAAA'',
      lg_topic2 = Some ''0x000000000000000000000000bbbbbbbbbbbbbbbbbbbbbbbbbbbbbbbbbbbbbbbb'',
      lg_topic3 = None,
      lg_data = ''0x00000000000000000000000000000000000000000000000000000000000003e8'',
      lg_block_height = 1, lg_timestamp = 1700000001,
      lg_decoded_name = None, lg_decoded_args = None\<rparr>"

definition example_token_row :: token_row where
  "example_token_row =
     \<lparr>tk_address = ''0xc0ffee0000000000000000000000000000000001'', tk_name = ''Unknown'',
      tk_symbol = ''TOK'', tk_decimals = 8, tk_total_supply = ''0'', tk_owner = None\<rparr>"

definition example_transfer_row :: transfer_row where
  "example_transfer_row =
     \<lparr>tt_tx_hash = ''tx1'', tt_log_index = 0,
      tt_token_address = ''0xc0ffee0000000000000000000000000000000001'',
      tt_from_address = ''0xaaaaaaaaaaaaaaaaaaaaaaaaaaaaaaaaaaaaaaaa'',
      tt_to_address = ''0xbbbbbbbbbbbbbbbbbbbbbbbbbbbbbbbbbbbbbbbb'',
      tt_value = Some ''0x00000000000000000000000000000000000000000000000000000000000003e8'',
      tt_block_height = 1, tt_timestamp = 1700000001\<rparr>"

definition example_committed :: store where
  "example_committed =
     \<lparr>blocks = [example_block_row], transactions = [example_tx_row],
      event_logs = [], tokens = [], token_transfers = [], indexer_state = []\<rparr>"

definition example_store1 :: store where
  "example_store1 =
     \<lparr>blocks = [example_block_row], transactions = [example_tx_row],
      event_logs = [example_log_row], tokens = [example_token_row],
      token_transfers = [example_transfer_row], indexer_state = []\<rparr>"

text \<open>
  \<open>indexBlock\<close> run to completion on a store: the block's transaction has committed
  and every \<open>indexReceipt\<close> call it started has finished.
\<close>

definition index_and_settle :: "node \<Rightarrow> int \<Rightarrow> store \<Rightarrow> error + store" where
  "index_and_settle rpc height st =
     (case indexBlock rpc height \<lparr>w_db = st, w_pending = []\<rparr> of
        Inl e \<Rightarrow> Inl e
      | Inr w \<Rightarrow> Inr (w_db (settle rpc w)))"

subsection \<open>The Transaction rows of a block\<close>

text \<open>
  The rows that \<open>indexBlock\<close> passes to \<open>insertTx\<close> for the entries of \<open>block.tx\<close>,
  in order, and the effect of \<open>insertTx\<close> on the table.
\<close>

fun tx_rows :: "rpc_block \<Rightarrow> nat \<Rightarrow> tx_entry list \<Rightarrow> tx_row list" where
  "tx_rows block i [] = []"
| "tx_rows block i (TxObject tx # txs) = tx_row_of tx block i # tx_rows block (Suc i) txs"
| "tx_rows block i (TxId h # txs) = tx_rows block (Suc i) txs"

definition upsert_tx :: "tx_row \<Rightarrow> tx_row list \<Rightarrow> tx_row list" where
  "upsert_tx row rows = filter (\<lambda>r. tr_hash r \<noteq> tr_hash row) rows @ [row]"

text \<open>The \<open>indexReceipt\<close> calls that \<open>indexBlock\<close> starts for these entries, in order.\<close>

definition receipt_tasks :: "rpc_block \<Rightarrow> tx_entry list \<Rightarrow> receipt_task list" where
  "receipt_tasks block txs = map (\<lambda>row. (tr_hash row, block)) (tx_rows block 0 txs)"

definition block_txs :: "rpc_block \<Rightarrow> tx_entry list" where
  "block_txs block = (case b_tx block of None \<Rightarrow> [] | Some txs \<Rightarrow> txs)"

subsection \<open>A node that answers a chain\<close>

text \<open>
  The store statements of \<open>indexBlock\<close> succeed when the node answers, for each height
  of a batch, a block of that height whose hash is the hash of no other height, in the
  batch or in the store. \<open>consistent_answers rpc st lo hi\<close> says so for the heights
  \<open>lo\<close> to \<open>hi\<close> and the store \<open>st\<close>; it asks nothing of a height for which the
  node answers \<open>null\<close> or fails.
\<close>

definition answered_hash :: "node \<Rightarrow> int \<Rightarrow> string option" where
  "answered_hash rpc k =
     (case getBlock rpc k of
        Inl e \<Rightarrow> None
      | Inr None \<Rightarrow> None
      | Inr (Some block) \<Rightarrow> Some (b_hash block))"

definition block_fits :: "node \<Rightarrow> store \<Rightarrow> int \<Rightarrow> bool" where
  "block_fits rpc st k =
     (case getBlock rpc k of
        Inl e \<Rightarrow> True
      | Inr None \<Rightarrow> True
      | Inr (Some block) \<Rightarrow>
          b_height block = k
          \<and> list_all (\<lambda>r. bk_hash r \<noteq> b_hash block \<or> bk_height r = k) (blocks st))"

definition consistent_answers :: "node \<Rightarrow> store \<Rightarrow> int \<Rightarrow> int \<Rightarrow> bool" where
  "consistent_answers rpc st lo hi =
     (list_all (block_fits rpc st) [lo..hi]
      \<and> distinct (List.map_filter (answered_hash rpc) [lo..hi]))"

subsection \<open>The Token row of every TokenTransfer\<close>

definition transfers_have_tokens :: "store \<Rightarrow> bool" where
  "transfers_have_tokens st =
     list_all (\<lambda>t. getToken st (tt_token_address t) \<noteq> None) (token_transfers st)"

section \<open>Properties\<close>

subsection \<open>Decimal numerals\<close>

lemma of_char_digit: "d < 10 \<Longrightarrow> (of_char (digit_char d) :: nat) = 48 + d"
  by (simp add: digit_char_def)

lemma digit_char_neq:
  assumes "d < 10" and "(of_char c :: nat) < 48 \<or> 57 < (of_char c :: nat)"
  shows "digit_char d \<noteq> c"
proof
  assume "digit_char d = c"
  then have "(of_char (digit_char d) :: nat) = of_char c" by simp
  then show False using assms of_char_digit [of d] by auto
qed

lemma digit_char_props:
  assumes "d < 10"
  shows "is_digit (digit_char d)" "digit_val (digit_char d) = d" "\<not> is_space (digit_char d)"
    "digit_char d \<noteq> CHR ''-''" "digit_char d \<noteq> CHR ''+''" "digit_char d \<noteq> CHR ''x''" "digit_char d \<noteq> CHR ''X''"
  using assms of_char_digit [OF assms]
  by (auto simp: is_digit_def digit_val_def is_space_def intro!: digit_char_neq)

lemma dec_digits_all: "list_all is_digit (dec_digits n)"
  apply (induction n rule: dec_digits.induct)
  apply (subst dec_digits.simps)
  apply (auto simp: digit_char_props)
  done

lemma dec_digits_nonempty: "dec_digits n \<noteq> []"
  by (subst dec_digits.simps) simp

lemma dec_val_dec_digits: "dec_val (dec_digits n) = n"
  apply (induction n rule: dec_digits.induct)
  apply (subst dec_digits.simps)
  apply (auto simp: digit_char_props dec_val_def)
  done

lemma is_digit_not_other:
  assumes "is_digit c"
  shows "\<not> is_space c" "c \<noteq> CHR ''-''" "c \<noteq> CHR ''+''" "c \<noteq> CHR ''x''" "c \<noteq> CHR ''X''"
  using assms by (auto simp: is_digit_def is_space_def)

lemma takeWhile_all: "list_all P xs \<Longrightarrow> takeWhile P xs = xs"
  by (induction xs) auto

lemma parse_magnitude_dec_digits: "parse_magnitude (dec_digits n) = Some n"
proof -
  let ?s = "dec_digits n"
  have all: "list_all is_digit ?s" by (rule dec_digits_all)
  have ne: "?s \<noteq> []" by (rule dec_digits_nonempty)
  have no_prefix: "take 2 ?s \<noteq> ''0x''" "take 2 ?s \<noteq> ''0X''"
  proof -
    { fix x assume "take 2 ?s = [CHR ''0'', x]"
      then have "x \<in> set ?s" by (metis in_set_takeD list.set_intros(1) list.set_intros(2))
      then have "is_digit x" using all by (simp add: list_all_iff) }
    then show "take 2 ?s \<noteq> ''0x''" "take 2 ?s \<noteq> ''0X''"
      using is_digit_not_other(4,5) by blast+
  qed
  show ?thesis
    using no_prefix ne by (simp add: parse_magnitude_def takeWhile_all [OF all] dec_val_dec_digits)
qed

lemma parseInt_toString: "parseInt (toString n) = Some n"
proof -
  obtain c cs where s: "dec_digits (nat \<bar>n\<bar>) = c # cs"
    using dec_digits_nonempty [of "nat \<bar>n\<bar>"] by (cases "dec_digits (nat \<bar>n\<bar>)") auto
  have c: "is_digit c" using dec_digits_all [of "nat \<bar>n\<bar>"] s by simp
  show ?thesis
  proof (cases "n < 0")
    case True
    then have "toString n = CHR ''-'' # dec_digits (nat \<bar>n\<bar>)" by (simp add: toString_def)
    then show ?thesis using True
      by (simp add: parseInt_def is_space_def parse_magnitude_dec_digits)
  next
    case False
    then have t: "toString n = c # cs" using s by (simp add: toString_def)
    have "parse_magnitude (c # cs) = Some (nat \<bar>n\<bar>)"
      using parse_magnitude_dec_digits [of "nat \<bar>n\<bar>"] s by simp
    then show ?thesis using False t is_digit_not_other [OF c]
      by (simp add: parseInt_def)
  qed
qed

subsection \<open>Token amounts\<close>

lemmas string_prims =
  js_slice_def padStart_def or_else_def strip_trailing_zeros_def strip_final_dot_def

lemma formatTokenAmount_one_and_a_half:
  "formatTokenAmount ''1500000000000000000'' 18 = ''1.5''"
  by (simp add: formatTokenAmount_def string_prims)

text \<open>
  With at least one decimal, \<open>formatTokenAmount\<close> on the decimal string of \<open>n\<close> is
  the rendering of \<open>n / 10^d\<close>; and the amount \<open>"0"\<close> is rendered \<open>"0"\<close> for every
  number of decimals.
\<close>

lemma length_last_digits: "length (last_digits d n) = d"
  by (induction d arbitrary: n) auto

lemma dec_digits_split:
  "10 ^ d \<le> n \<Longrightarrow> dec_digits n = dec_digits (n div 10 ^ d) @ last_digits d n"
proof (induction d arbitrary: n)
  case 0
  then show ?case by simp
next
  case (Suc d)
  have "(10::nat) \<le> 10 ^ Suc d" by simp
  then have big: "\<not> n < 10" using Suc.prems by linarith
  have "10 ^ d \<le> n div 10" using Suc.prems by (simp add: less_eq_div_iff_mult_less_eq)
  from Suc.IH [OF this] have "dec_digits (n div 10) = dec_digits (n div 10 div 10 ^ d) @ last_digits d (n div 10)" .
  moreover have "n div 10 div 10 ^ d = n div 10 ^ Suc d" by (simp add: div_mult2_eq)
  moreover have "dec_digits n = dec_digits (n div 10) @ [digit_char (n mod 10)]"
    using big by (subst dec_digits.simps) simp
  ultimately show ?case by simp
qed

lemma digit_char_zero: "digit_char 0 = CHR ''0''"
  by code_simp

lemma last_digits_zero: "last_digits d 0 = replicate d CHR ''0''"
  by (induction d) (simp_all add: digit_char_zero replicate_append_same)

lemma dec_digits_pad:
  "n < 10 ^ d \<Longrightarrow> 0 < d \<Longrightarrow>
     length (dec_digits n) \<le> d
     \<and> replicate (d - length (dec_digits n)) CHR ''0'' @ dec_digits n = last_digits d n"
proof (induction d arbitrary: n)
  case 0
  then show ?case by simp
next
  case (Suc d)
  show ?case
  proof (cases "n < 10")
    case True
    then have "dec_digits n = [digit_char n]" by (subst dec_digits.simps) simp
    then show ?thesis using True by (simp add: last_digits_zero)
  next
    case False
    then have dd: "dec_digits n = dec_digits (n div 10) @ [digit_char (n mod 10)]"
      by (subst dec_digits.simps) simp
    have small: "n div 10 < 10 ^ d" using Suc.prems by (simp add: less_mult_imp_div_less mult.commute)
    have pos: "0 < d" using False small by (cases d) auto
    from Suc.IH [OF small pos] show ?thesis using dd by (simp add: Suc_diff_le)
  qed
qed

lemma last_digits_mod: "last_digits d (n mod 10 ^ d) = last_digits d n"
proof (induction d arbitrary: n)
  case 0
  then show ?case by simp
next
  case (Suc d)
  have a: "n mod (10 * 10 ^ d) div 10 = (n div 10) mod 10 ^ d"
    by (simp add: mod_mult2_eq)
  have b: "n mod (10 * 10 ^ d) mod 10 = n mod 10"
    by (simp add: mod_mod_cancel)
  show ?case using Suc.IH [of "n div 10"] by (simp add: a b)
qed

lemma digit_char_eq_zero: "x < 10 \<Longrightarrow> digit_char x = CHR ''0'' \<longleftrightarrow> x = 0"
proof
  assume x: "x < 10" and "digit_char x = CHR ''0''"
  then have "(of_char (digit_char x) :: nat) = of_char CHR ''0''" by simp
  then show "x = 0" using of_char_digit [OF x] by simp
next
  assume "x = 0"
  then show "digit_char x = CHR ''0''" by (simp add: digit_char_zero)
qed

lemma digit_char_not_dot: "x < 10 \<Longrightarrow> digit_char x \<noteq> CHR ''.''"
proof
  assume x: "x < 10" and "digit_char x = CHR ''.''"
  then have "(of_char (digit_char x) :: nat) = of_char CHR ''.''" by simp
  then show False using of_char_digit [OF x] by simp
qed

lemma last_digits_no_dot: "CHR ''.'' \<notin> set (last_digits d n)"
proof (induction d arbitrary: n)
  case 0
  then show ?case by simp
next
  case (Suc d)
  have "digit_char (n mod 10) \<noteq> CHR ''.''" by (rule digit_char_not_dot) simp
  then show ?case using Suc.IH [of "n div 10"] by auto
qed

lemma last_digits_all_zero:
  "(\<forall>c \<in> set (last_digits d n). c = CHR ''0'') \<longleftrightarrow> n mod 10 ^ d = 0"
proof (induction d arbitrary: n)
  case 0
  then show ?case by simp
next
  case (Suc d)
  have "n mod 10 ^ Suc d = 0 \<longleftrightarrow> n mod 10 = 0 \<and> (n div 10) mod 10 ^ d = 0"
    by (auto simp: mod_mult2_eq)
  then show ?case using Suc.IH [of "n div 10"] by (auto simp: digit_char_eq_zero)
qed

lemma strip_trailing_zeros_empty:
  "strip_trailing_zeros s = [] \<longleftrightarrow> (\<forall>c \<in> set s. c = CHR ''0'')"
  by (auto simp: strip_trailing_zeros_def dropWhile_eq_Nil_conv)

lemma strip_trailing_zeros_subset: "set (strip_trailing_zeros s) \<subseteq> set s"
  using set_dropWhileD [of _ "\<lambda>c. c = CHR ''0''" "rev s"]
  by (auto simp: strip_trailing_zeros_def)

lemma dec_digits_zero: "dec_digits 0 = ''0''"
  by (subst dec_digits.simps) (simp add: digit_char_zero)

lemma formatTokenAmount_parts:
  assumes "0 < d"
  shows "js_slice (padStart (dec_digits n) (d + 1) CHR ''0'') 0 (Some (- int d))
           = dec_digits (n div 10 ^ d)
       \<and> js_slice (padStart (dec_digits n) (d + 1) CHR ''0'') (- int d) None
           = last_digits d n"
proof (cases "10 ^ d \<le> n")
  case True
  let ?q = "dec_digits (n div 10 ^ d)"
  have s: "dec_digits n = ?q @ last_digits d n" using True by (rule dec_digits_split)
  have q: "?q \<noteq> []" by (rule dec_digits_nonempty)
  have len: "length (dec_digits n) = length ?q + d" using s by (simp add: length_last_digits)
  have pad: "padStart (dec_digits n) (d + 1) CHR ''0'' = ?q @ last_digits d n"
    using s len q by (cases ?q) (simp_all add: padStart_def)
  show ?thesis unfolding pad
    using assms by (simp add: js_slice_def Let_def length_last_digits)
next
  case False
  then have small: "n < 10 ^ d" by simp
  then have q0: "n div 10 ^ d = 0" by simp
  from dec_digits_pad [OF small assms]
  have len: "length (dec_digits n) \<le> d"
    and p: "replicate (d - length (dec_digits n)) CHR ''0'' @ dec_digits n = last_digits d n"
    by simp_all
  have "padStart (dec_digits n) (d + 1) CHR ''0''
      = CHR ''0'' # (replicate (d - length (dec_digits n)) CHR ''0'' @ dec_digits n)"
    using len by (simp add: padStart_def Suc_diff_le)
  then have pad: "padStart (dec_digits n) (d + 1) CHR ''0'' = CHR ''0'' # last_digits d n"
    using p by simp
  show ?thesis unfolding pad q0
    using assms by (simp add: js_slice_def Let_def length_last_digits dec_digits_zero)
qed

lemma formatTokenAmount_positive_decimals:
  assumes "0 < d"
  shows "formatTokenAmount (dec_digits n) d = render_amount n d"
proof -
  let ?q = "dec_digits (n div 10 ^ d)"
  let ?f = "last_digits d n"
  have q: "?q \<noteq> []" by (rule dec_digits_nonempty)
  have f: "?f \<noteq> []" using assms length_last_digits [of d n] by (cases ?f) auto
  have fm: "?f = last_digits d (n mod 10 ^ d)" by (simp add: last_digits_mod)
  have unfold: "formatTokenAmount (dec_digits n) d =
      strip_final_dot (?q @ ''.'' @ strip_trailing_zeros ?f)"
    using formatTokenAmount_parts [OF assms, of n] q f
    by (simp add: formatTokenAmount_def Let_def or_else_def)
  show ?thesis
  proof (cases "n mod 10 ^ d = 0")
    case True
    then have "strip_trailing_zeros ?f = []"
      by (simp add: strip_trailing_zeros_empty last_digits_all_zero)
    then show ?thesis using unfold True
      by (simp add: render_amount_def Let_def strip_final_dot_def)
  next
    case False
    then have ne: "strip_trailing_zeros ?f \<noteq> []"
      by (simp add: strip_trailing_zeros_empty last_digits_all_zero)
    have "last (strip_trailing_zeros ?f) \<in> set ?f"
      using ne strip_trailing_zeros_subset [of ?f] last_in_set by blast
    then have "last (strip_trailing_zeros ?f) \<noteq> CHR ''.''"
      using last_digits_no_dot [of d n] by auto
    then have "strip_final_dot (?q @ ''.'' @ strip_trailing_zeros ?f)
        = ?q @ ''.'' @ strip_trailing_zeros ?f"
      using ne by (simp add: strip_final_dot_def)
    then show ?thesis using unfold False fm
      by (simp add: render_amount_def Let_def)
  qed
qed

lemma formatTokenAmount_zero_amount: "formatTokenAmount ''0'' d = ''0''"
proof (cases d)
  case 0
  then show ?thesis by (simp add: formatTokenAmount_def string_prims)
next
  case (Suc k)
  then have "formatTokenAmount (dec_digits 0) d = render_amount 0 d"
    by (intro formatTokenAmount_positive_decimals) simp
  then show ?thesis by (simp add: dec_digits_zero render_amount_def)
qed

text \<open>
  C4. \<open>formatTokenAmount\<close> is meant to render \<open>amount / 10^decimals\<close>, so that
  \<open>formatTokenAmount("100", 0)\<close> is \<open>"100"\<close>. With \<open>decimals = 0\<close> the code computes
  \<open>str.slice(0, -0)\<close>, which is empty, and \<open>str.slice(-0)\<close>, which is the whole string:
  the amount lands in the fraction, and the result is \<open>"0.1"\<close>.
\<close>

theorem formatTokenAmount_zero_decimals:
  "formatTokenAmount ''100'' 0 = ''0.1''"
  by (simp add: formatTokenAmount_def string_prims)

subsection \<open>The store statements\<close>

text \<open>
  \<open>insertTx\<close> and \<open>insertToken\<close> replace a row by a row of the same key, so they
  leave no referencing row without its parent: \<open>insertToken\<close> always succeeds, and
  \<open>insertTx\<close> succeeds when the block of the transaction is stored.
\<close>

lemma insertTx_eq:
  "insertTx row st =
     (if has_block st (tr_block_height row)
      then Inr (st\<lparr>transactions := upsert_tx row (transactions st)\<rparr>)
      else Inl SqliteError)"
proof -
  have "\<not> fk_lost (has_tx st)
          (has_tx (st\<lparr>transactions :=
             filter (\<lambda>r. tr_hash r \<noteq> tr_hash row) (transactions st) @ [row]\<rparr>)) refs" for refs
    by (auto simp: fk_lost_def has_tx_def list_ex_iff)
  then show ?thesis by (simp add: insertTx_def Let_def upsert_tx_def)
qed

lemma insertToken_eq:
  "insertToken row st =
     Inr (st\<lparr>tokens := filter (\<lambda>r. tk_address r \<noteq> tk_address row) (tokens st) @ [row]\<rparr>)"
proof -
  have "\<not> fk_lost (has_token st)
          (has_token (st\<lparr>tokens :=
             filter (\<lambda>r. tk_address r \<noteq> tk_address row) (tokens st) @ [row]\<rparr>)) refs" for refs
    by (auto simp: fk_lost_def has_token_def list_ex_iff)
  then show ?thesis by (simp add: insertToken_def Let_def)
qed

lemma insertBlock_cases:
  "insertBlock row st = Inl SqliteError
   \<or> insertBlock row st =
       Inr (st\<lparr>blocks := filter (\<lambda>r. bk_height r \<noteq> bk_height row \<and> bk_hash r \<noteq> bk_hash row)
                           (blocks st) @ [row]\<rparr>)"
  by (simp add: insertBlock_def Let_def)

lemma insertBlock_fits:
  assumes "list_all (\<lambda>r. bk_hash r \<noteq> bk_hash row \<or> bk_height r = bk_height row) (blocks st)"
  shows "insertBlock row st =
       Inr (st\<lparr>blocks := filter (\<lambda>r. bk_height r \<noteq> bk_height row \<and> bk_hash r \<noteq> bk_hash row)
                           (blocks st) @ [row]\<rparr>)"
proof -
  have "\<not> fk_lost (has_block st)
          (has_block (st\<lparr>blocks :=
             filter (\<lambda>r. bk_height r \<noteq> bk_height row \<and> bk_hash r \<noteq> bk_hash row) (blocks st)
               @ [row]\<rparr>)) refs" for refs
    using assms by (auto simp: fk_lost_def has_block_def list_ex_iff list_all_iff)
  then show ?thesis by (simp add: insertBlock_def Let_def)
qed

subsection \<open>What \<open>indexBlock\<close> commits\<close>

lemma tx_row_of_key:
  "tr_block_height (tx_row_of tx block i) = b_height block"
  "tr_hash (tx_row_of tx block i) = tx_txid tx"
  by (simp_all add: tx_row_of_def Let_def split: prod.splits)

lemma has_block_transactions [simp]:
  "has_block (st\<lparr>transactions := T\<rparr>) h = has_block st h"
  by (simp add: has_block_def)

lemma indexTransactions_eq:
  "indexTransactions block i txs w =
     (if tx_rows block i txs = [] \<or> has_block (w_db w) (b_height block)
      then Inr \<lparr>w_db = (w_db w)\<lparr>transactions :=
                         fold upsert_tx (tx_rows block i txs) (transactions (w_db w))\<rparr>,
                w_pending = w_pending w
                  @ map (\<lambda>row. (tr_hash row, block)) (tx_rows block i txs)\<rparr>
      else Inl SqliteError)"
proof (induction block i txs w rule: indexTransactions.induct)
  case (1 block i w)
  then show ?case by simp
next
  case (2 block i tx txs w)
  show ?case
  proof (cases "has_block (w_db w) (b_height block)")
    case False
    then show ?thesis by (simp add: indexTransaction_def insertTx_eq tx_row_of_key)
  next
    case True
    let ?st = "(w_db w)\<lparr>transactions := upsert_tx (tx_row_of tx block i) (transactions (w_db w))\<rparr>"
    have ins: "indexTransaction tx block i (w_db w) = Inr ?st"
      using True by (simp add: indexTransaction_def insertTx_eq tx_row_of_key)
    show ?thesis
      using True "2.IH" [OF ins] ins by (simp add: tx_row_of_key)
  qed
next
  case (3 block i h txs w)
  then show ?case by simp
qed

lemma indexBlock_found:
  assumes "getBlock rpc k = Inr (Some b)" and "block_fits rpc (w_db w) k"
  shows "indexBlock rpc k w =
     Inr \<lparr>w_db = (w_db w)
            \<lparr>blocks := filter (\<lambda>r. bk_height r \<noteq> k \<and> bk_hash r \<noteq> b_hash b) (blocks (w_db w))
                        @ [block_row_of k b],
             transactions := fold upsert_tx (tx_rows b 0 (block_txs b)) (transactions (w_db w))\<rparr>,
          w_pending = w_pending w @ receipt_tasks b (block_txs b)\<rparr>"
proof -
  let ?row = "block_row_of k b"
  have key: "bk_height ?row = k" "bk_hash ?row = b_hash b" by (simp_all add: block_row_of_def)
  have h: "b_height b = k"
    and fits: "list_all (\<lambda>r. bk_hash r \<noteq> b_hash b \<or> bk_height r = k) (blocks (w_db w))"
    using assms by (simp_all add: block_fits_def)
  let ?st = "(w_db w)\<lparr>blocks :=
      filter (\<lambda>r. bk_height r \<noteq> k \<and> bk_hash r \<noteq> b_hash b) (blocks (w_db w)) @ [?row]\<rparr>"
  have ins: "insertBlock ?row (w_db w) = Inr ?st"
    using insertBlock_fits [of ?row "w_db w"] fits unfolding key by simp
  have there: "has_block ?st (b_height b)" using h key by (simp add: has_block_def)
  show ?thesis
    using assms(1) ins there
    by (simp add: indexBlock_def indexTransactions_eq block_txs_def receipt_tasks_def)
qed

lemma indexBlock_empty: "getBlock rpc H = Inr None \<Longrightarrow> indexBlock rpc H w = Inr w"
  by (simp add: indexBlock_def)

lemma indexBlock_throws: "getBlock rpc k = Inl e \<Longrightarrow> indexBlock rpc k w = Inl e"
  by (simp add: indexBlock_def)

lemma indexBlock_Inr:
  assumes "indexBlock rpc k w = Inr w'"
  shows "(getBlock rpc k = Inr None \<and> w' = w)
     \<or> (\<exists>b. getBlock rpc k = Inr (Some b)
          \<and> w' = \<lparr>w_db = (w_db w)
                    \<lparr>blocks := filter (\<lambda>r. bk_height r \<noteq> k \<and> bk_hash r \<noteq> b_hash b)
                                 (blocks (w_db w)) @ [block_row_of k b],
                     transactions := fold upsert_tx (tx_rows b 0 (block_txs b))
                                       (transactions (w_db w))\<rparr>,
                  w_pending = w_pending w @ receipt_tasks b (block_txs b)\<rparr>)"
proof (cases "getBlock rpc k")
  case (Inl e)
  then show ?thesis using assms by (simp add: indexBlock_def)
next
  case (Inr found)
  show ?thesis
  proof (cases found)
    case None
    then show ?thesis using assms Inr by (simp add: indexBlock_def)
  next
    case (Some b)
    let ?row = "block_row_of k b"
    have key: "bk_height ?row = k" "bk_hash ?row = b_hash b" by (simp_all add: block_row_of_def)
    from insertBlock_cases [of ?row "w_db w"] show ?thesis
    proof
      assume "insertBlock ?row (w_db w) = Inl SqliteError"
      then show ?thesis using assms Inr Some by (simp add: indexBlock_def)
    next
      assume "insertBlock ?row (w_db w) =
        Inr ((w_db w)\<lparr>blocks := filter (\<lambda>r. bk_height r \<noteq> bk_height ?row \<and> bk_hash r \<noteq> bk_hash ?row)
                           (blocks (w_db w)) @ [?row]\<rparr>)"
      then show ?thesis using assms Inr Some unfolding key
        by (auto simp: indexBlock_def indexTransactions_eq block_txs_def receipt_tasks_def
            split: if_splits)
    qed
  qed
qed

lemma indexBlock_state:
  "indexBlock rpc height w = Inr w' \<Longrightarrow> indexer_state (w_db w') = indexer_state (w_db w)"
  using indexBlock_Inr [of rpc height w w'] by auto

lemma indexBlock_tokens:
  "indexBlock rpc height w = Inr w' \<Longrightarrow>
     tokens (w_db w') = tokens (w_db w) \<and> token_transfers (w_db w') = token_transfers (w_db w)"
  using indexBlock_Inr [of rpc height w w'] by auto

subsection \<open>The cursor and the sync loop\<close>

lemma map_of_filter_append:
  "map_of (filter (\<lambda>kv. fst kv \<noteq> k) xs @ [(k, v)]) k = Some v"
  by (induction xs) auto

lemma getIndexerState_set: "getIndexerState (setIndexerState k v st) k = Some v"
  by (simp add: getIndexerState_def setIndexerState_def map_of_filter_append del: map_of_append)

lemma getLastIndexedBlock_set: "getLastIndexedBlock (setLastIndexedBlock h st) = Some h"
  by (simp add: getLastIndexedBlock_def setLastIndexedBlock_def getIndexerState_set
      parseInt_toString)

lemma getLastIndexedBlock_cong:
  "indexer_state a = indexer_state b \<Longrightarrow> getLastIndexedBlock a = getLastIndexedBlock b"
  by (simp add: getLastIndexedBlock_def getIndexerState_def)

text \<open>
  The \<open>for\<close> loop, for every node: it passes the heights to \<open>indexBlock\<close> in ascending
  order and stops at the first one that throws; the state it returns is the state in
  which that call threw, and the cursor is untouched.
\<close>

lemma indexRange_shape:
  "indexRange rpc s e w = (r, hs, w') \<Longrightarrow>
     indexer_state (w_db w') = indexer_state (w_db w)
     \<and> (case r of
          None \<Rightarrow> hs = [s..e]
        | Some err \<Rightarrow> (\<exists>k. s \<le> k \<and> k \<le> e \<and> hs = [s..k] \<and> indexBlock rpc k w' = Inl err))"
proof (induction rpc s e w arbitrary: r hs w' rule: indexRange.induct)
  case (1 rpc height endBlock w)
  show ?case
  proof (cases "height \<le> endBlock")
    case False
    then show ?thesis using "1.prems" by (auto simp: indexRange.simps)
  next
    case True
    then have up: "[height..endBlock] = height # [height + 1..endBlock]"
      by (simp add: upto_rec1)
    show ?thesis
    proof (cases "indexBlock rpc height w")
      case (Inl err)
      then have "r = Some err" "hs = [height]" "w' = w"
        using True "1.prems" by (simp_all add: indexRange.simps)
      then show ?thesis using Inl True by auto
    next
      case (Inr w1)
      obtain r2 hs2 w2 where rec: "indexRange rpc (height + 1) endBlock w1 = (r2, hs2, w2)"
        by (cases "indexRange rpc (height + 1) endBlock w1") auto
      have res: "r = r2" "hs = height # hs2" "w' = w2"
        using True Inr rec "1.prems" by (simp_all add: indexRange.simps)
      note ih = "1.IH" [OF True Inr rec]
      have st: "indexer_state (w_db w') = indexer_state (w_db w)"
        using ih indexBlock_state [OF Inr] res by simp
      show ?thesis
      proof (cases r2)
        case None
        then show ?thesis using ih st res up by simp
      next
        case (Some err)
        then obtain k where k: "height + 1 \<le> k" "k \<le> endBlock" "hs2 = [height + 1..k]"
          "indexBlock rpc k w2 = Inl err"
          using ih by auto
        have "height # [height + 1..k] = [height..k]" using k(1) by (simp add: upto_rec1)
        then have "height \<le> k \<and> k \<le> endBlock \<and> hs = [height..k] \<and> indexBlock rpc k w' = Inl err"
          using k res by simp
        then show ?thesis using st res Some by auto
      qed
    qed
  qed
qed

text \<open>
  For a node with consistent answers no store statement fails: \<open>indexBlock\<close> throws
  when the fetch throws, and only then.
\<close>

lemma map_filter_set: "y \<in> set (List.map_filter f xs) \<longleftrightarrow> (\<exists>x \<in> set xs. f x = Some y)"
  by (induction xs) (auto split: option.splits)

lemma consistent_step:
  assumes c: "consistent_answers rpc (w_db w) s e" and le: "s \<le> e"
    and ok: "indexBlock rpc s w = Inr w1"
  shows "consistent_answers rpc (w_db w1) (s + 1) e"
proof -
  have up: "[s..e] = s # [s + 1..e]" using le by (simp add: upto_rec1)
  have fits: "list_all (block_fits rpc (w_db w)) [s + 1..e]"
    and dist: "distinct (List.map_filter (answered_hash rpc) (s # [s + 1..e]))"
    using c unfolding consistent_answers_def up by simp_all
  have dist': "distinct (List.map_filter (answered_hash rpc) [s + 1..e])"
    using dist by (simp split: option.splits)
  have "block_fits rpc (w_db w1) k" if k: "k \<in> set [s + 1..e]" for k
  proof -
    have old: "block_fits rpc (w_db w) k" using fits k by (simp add: list_all_iff)
    from indexBlock_Inr [OF ok] show ?thesis
    proof
      assume "getBlock rpc s = Inr None \<and> w1 = w"
      then show ?thesis using old by simp
    next
      assume "\<exists>b. getBlock rpc s = Inr (Some b)
          \<and> w1 = \<lparr>w_db = (w_db w)
                    \<lparr>blocks := filter (\<lambda>r. bk_height r \<noteq> s \<and> bk_hash r \<noteq> b_hash b)
                                 (blocks (w_db w)) @ [block_row_of s b],
                     transactions := fold upsert_tx (tx_rows b 0 (block_txs b))
                                       (transactions (w_db w))\<rparr>,
                  w_pending = w_pending w @ receipt_tasks b (block_txs b)\<rparr>"
      then obtain b where b: "getBlock rpc s = Inr (Some b)"
        and bl: "blocks (w_db w1) =
            filter (\<lambda>r. bk_height r \<noteq> s \<and> bk_hash r \<noteq> b_hash b) (blocks (w_db w))
              @ [block_row_of s b]"
        by auto
      have hs: "answered_hash rpc s = Some (b_hash b)" using b by (simp add: answered_hash_def)
      show ?thesis
      proof (cases "getBlock rpc k")
        case (Inl err)
        then show ?thesis by (simp add: block_fits_def)
      next
        case (Inr found)
        show ?thesis
        proof (cases found)
          case None
          then show ?thesis using Inr by (simp add: block_fits_def)
        next
          case (Some bk)
          have hk: "answered_hash rpc k = Some (b_hash bk)"
            using Inr Some by (simp add: answered_hash_def)
          have "b_hash bk \<in> set (List.map_filter (answered_hash rpc) [s + 1..e])"
            using k hk unfolding map_filter_set by blast
          then have ne: "b_hash b \<noteq> b_hash bk"
            using dist hs by auto
          have "b_height bk = k"
            and "list_all (\<lambda>r. bk_hash r \<noteq> b_hash bk \<or> bk_height r = k) (blocks (w_db w))"
            using old Inr Some by (simp_all add: block_fits_def)
          then show ?thesis using Inr Some ne
            by (auto simp: block_fits_def bl list_all_iff block_row_of_def)
        qed
      qed
    qed
  qed
  then show ?thesis using dist' by (simp add: consistent_answers_def list_all_iff)
qed

lemma indexBlock_isl:
  assumes "block_fits rpc (w_db w) k"
  shows "isl (indexBlock rpc k w) = isl (getBlock rpc k)"
proof (cases "getBlock rpc k")
  case (Inl e)
  then show ?thesis by (simp add: indexBlock_throws)
next
  case (Inr found)
  then show ?thesis
    using indexBlock_found [OF _ assms] indexBlock_empty [of rpc k w]
    by (cases found) simp_all
qed

lemma indexRange_heights:
  "consistent_answers rpc (w_db w) s e \<Longrightarrow>
   fst (indexRange rpc s e w) = map_option (\<lambda>k. projl (getBlock rpc k)) (find (\<lambda>k. isl (getBlock rpc k)) [s..e])
   \<and> fst (snd (indexRange rpc s e w)) =
       (case find (\<lambda>k. isl (getBlock rpc k)) [s..e] of None \<Rightarrow> [s..e] | Some k \<Rightarrow> [s..k])"
proof (induction rpc s e w rule: indexRange.induct)
  case (1 rpc height endBlock w)
  show ?case
  proof (cases "height \<le> endBlock")
    case False
    then show ?thesis by (simp add: indexRange.simps)
  next
    case True
    then have up: "[height..endBlock] = height # [height + 1..endBlock]"
      by (simp add: upto_rec1)
    have fit: "block_fits rpc (w_db w) height"
      using "1.prems" unfolding consistent_answers_def up by simp
    show ?thesis
    proof (cases "indexBlock rpc height w")
      case (Inl e)
      then have "isl (getBlock rpc height)" using indexBlock_isl [OF fit] by simp
      then obtain e' where g: "getBlock rpc height = Inl e'" by (cases "getBlock rpc height") auto
      then have "e' = e" using Inl by (simp add: indexBlock_throws)
      then show ?thesis using True Inl up g by (simp add: indexRange.simps)
    next
      case (Inr w1)
      then have ok: "\<not> isl (getBlock rpc height)" using indexBlock_isl [OF fit] by simp
      obtain r2 hs2 w2 where rec: "indexRange rpc (height + 1) endBlock w1 = (r2, hs2, w2)"
        by (cases "indexRange rpc (height + 1) endBlock w1") auto
      have c1: "consistent_answers rpc (w_db w1) (height + 1) endBlock"
        using consistent_step [OF "1.prems" True Inr] .
      have ih: "r2 = map_option (\<lambda>k. projl (getBlock rpc k)) (find (\<lambda>k. isl (getBlock rpc k)) [height + 1..endBlock])"
        "hs2 = (case find (\<lambda>k. isl (getBlock rpc k)) [height + 1..endBlock] of None \<Rightarrow> [height + 1..endBlock] | Some k \<Rightarrow> [height + 1..k])"
        using "1.IH" [OF True Inr c1] rec by simp_all
      have res: "indexRange rpc height endBlock w = (r2, height # hs2, w2)"
        using True Inr rec by (simp add: indexRange.simps)
      have later: "\<And>k. find (\<lambda>k. isl (getBlock rpc k)) [height + 1..endBlock] = Some k \<Longrightarrow> height < k"
        by (auto simp: find_Some_iff)
      show ?thesis using res ih ok up later
        by (auto simp: upto_rec1 split: option.splits)
    qed
  qed
qed

lemma sync_iteration_shape:
  assumes h: "getBlockCount rpc = Inr h"
    and c: "getLastIndexedBlock (w_db w) = Some c"
    and lt: "c < h"
    and start: "start = c + 1"
    and stop: "stop = min (start + batchSize - 1) h"
  shows "(\<exists>w'. sync_iteration rpc w = (Indexed start stop, [start..stop], w')
               \<and> getLastIndexedBlock (w_db w') = Some stop \<and> c < stop)
         \<or> (\<exists>k e w'. start \<le> k \<and> k \<le> stop
               \<and> sync_iteration rpc w = (BackingOff e, [start..k], w')
               \<and> indexBlock rpc k w' = Inl e
               \<and> getLastIndexedBlock (w_db w') = Some c)"
proof -
  obtain r hs w1 where rng: "indexRange rpc start stop w = (r, hs, w1)"
    by (cases "indexRange rpc start stop w") auto
  note shape = indexRange_shape [OF rng]
  have st: "getLastIndexedBlock (w_db w1) = Some c"
    using shape getLastIndexedBlock_cong [of "w_db w1" "w_db w"] c by simp
  have above: "c < stop" using lt start stop by (simp add: batchSize_def)
  show ?thesis
  proof (cases r)
    case None
    then have hs: "hs = [start..stop]" using shape by simp
    have "sync_iteration rpc w =
        (Indexed start stop, [start..stop], w1\<lparr>w_db := setLastIndexedBlock stop (w_db w1)\<rparr>)"
      using h c lt rng None hs start stop by (simp add: sync_iteration_def Let_def)
    then show ?thesis using above by (simp add: getLastIndexedBlock_set)
  next
    case (Some e)
    then obtain k where k: "start \<le> k" "k \<le> stop" "hs = [start..k]" "indexBlock rpc k w1 = Inl e"
      using shape by auto
    have "sync_iteration rpc w = (BackingOff e, [start..k], w1)"
      using h c lt rng Some k(3) start stop by (simp add: sync_iteration_def Let_def)
    then show ?thesis using k st by blast
  qed
qed

lemma sync_iteration_batch:
  assumes h: "getBlockCount rpc = Inr h"
    and c: "getLastIndexedBlock (w_db w) = Some c"
    and lt: "c < h"
    and start: "start = c + 1"
    and stop: "stop = min (start + batchSize - 1) h"
    and cons: "consistent_answers rpc (w_db w) start stop"
  shows "case find (\<lambda>k. isl (getBlock rpc k)) [start..stop] of
           None \<Rightarrow>
             (\<exists>w'. sync_iteration rpc w = (Indexed start stop, [start..stop], w')
                  \<and> getLastIndexedBlock (w_db w') = Some stop \<and> c < stop)
         | Some k \<Rightarrow>
             (\<exists>w'. sync_iteration rpc w = (BackingOff (projl (getBlock rpc k)), [start..k], w')
                  \<and> getLastIndexedBlock (w_db w') = Some c)"
proof -
  obtain r hs w1 where rng: "indexRange rpc start stop w = (r, hs, w1)"
    by (cases "indexRange rpc start stop w") auto
  have st: "getLastIndexedBlock (w_db w1) = Some c"
    using indexRange_shape [OF rng] getLastIndexedBlock_cong [of "w_db w1" "w_db w"] c by simp
  from indexRange_heights [OF cons] rng
  have r: "r = map_option (\<lambda>k. projl (getBlock rpc k))
                 (find (\<lambda>k. isl (getBlock rpc k)) [start..stop])"
    and hs: "hs = (case find (\<lambda>k. isl (getBlock rpc k)) [start..stop] of
                     None \<Rightarrow> [start..stop] | Some k \<Rightarrow> [start..k])"
    by simp_all
  have above: "c < stop" using lt start stop by (simp add: batchSize_def)
  show ?thesis
  proof (cases "find (\<lambda>k. isl (getBlock rpc k)) [start..stop]")
    case None
    then have "sync_iteration rpc w =
        (Indexed start stop, [start..stop], w1\<lparr>w_db := setLastIndexedBlock stop (w_db w1)\<rparr>)"
      using h c lt rng r hs start stop by (simp add: sync_iteration_def Let_def)
    then show ?thesis using None above by (simp add: getLastIndexedBlock_set)
  next
    case (Some k)
    then have "sync_iteration rpc w = (BackingOff (projl (getBlock rpc k)), [start..k], w1)"
      using h c lt rng r hs start stop by (simp add: sync_iteration_def Let_def)
    then show ?thesis using Some st by simp
  qed
qed



text \<open>
  A batch that fails at its last height: the iteration backs off with the cursor where
  it was, and block 1, indexed before the failure, stays committed.
\<close>

lemma example_failed_batch:
  "case sync_iteration flaky_node example_world of
     (out, hs, w) \<Rightarrow>
       out = BackingOff RpcError \<and> hs = [1, 2, 3]
       \<and> getLastIndexedBlock (w_db w) = Some 0
       \<and> blocks (w_db w) = [example_block_row]"
  by code_simp

text \<open>
  A node that answers, for height 3, a block that carries the hash of block 1: the Block
  row of height 1 would be replaced away under its Transaction row, so \<open>insertBlock\<close>
  raises, the iteration backs off and the cursor stays.
\<close>

lemma example_reused_hash:
  "case sync_iteration
          (example_node\<lparr>getBlock := (\<lambda>h. if h = 3 then Inr (Some (example_block 3 ''hash1'' []))
                                         else getBlock example_node h)\<rparr>)
          example_world of
     (out, hs, w) \<Rightarrow>
       out = BackingOff SqliteError \<and> hs = [1, 2, 3]
       \<and> getLastIndexedBlock (w_db w) = Some 0
       \<and> blocks (w_db w) = [example_block_row]"
  by code_simp

lemma fold_upsert_keeps:
  "tr_hash ` set T \<union> tr_hash ` set rs \<subseteq> tr_hash ` set (fold upsert_tx rs T)"
proof (induction rs arbitrary: T)
  case Nil
  then show ?case by simp
next
  case (Cons r rs)
  have first: "insert (tr_hash r) (tr_hash ` set T) \<subseteq> tr_hash ` set (upsert_tx r T)"
    by (auto simp: upsert_tx_def)
  have "tr_hash ` set T \<union> tr_hash ` set (r # rs)
      = insert (tr_hash r) (tr_hash ` set T) \<union> tr_hash ` set rs" by auto
  also have "\<dots> \<subseteq> tr_hash ` set (upsert_tx r T) \<union> tr_hash ` set rs"
    using first by blast
  also have "\<dots> \<subseteq> tr_hash ` set (fold upsert_tx rs (upsert_tx r T))"
    by (rule Cons.IH)
  finally show ?case by simp
qed

text \<open>
  C6. Let the node answer \<open>null\<close> for the block at height \<open>H\<close> and a block for the
  heights \<open>H - 1\<close> and \<open>H + 1\<close>, and let the batch be these three heights (the cursor
  reads \<open>H - 2\<close>, the chain height is \<open>H + 1\<close>); let the answers be consistent (the two
  blocks carry their heights and differ in their hash, which no stored block of another
  height has). Then \<open>indexBlock(H)\<close> returns without raising and leaves the store and
  the pending receipts as they were; the iteration visits \<open>H - 1\<close>, \<open>H\<close>, \<open>H + 1\<close>,
  ends as a successful batch and sets the cursor to \<open>H + 1\<close>. Its state is spelled out:
  the Block rows of \<open>H - 1\<close> and \<open>H + 1\<close> have been written, in this order, and both
  are in the store; the Transaction rows of the first block and then of the second have been
  upserted, so that every transaction of the two blocks has a row; and the receipt of
  each of these transactions has been requested.
\<close>

theorem gap_tolerance:
  assumes gap: "getBlock rpc H = Inr None"
    and before: "getBlock rpc (H - 1) = Inr (Some b1)"
    and after: "getBlock rpc (H + 1) = Inr (Some b2)"
    and height: "getBlockCount rpc = Inr (H + 1)"
    and cursor: "getLastIndexedBlock (w_db w) = Some (H - 2)"
    and answers: "consistent_answers rpc (w_db w) (H - 1) (H + 1)"
  shows "\<exists>w1 w2. indexBlock rpc (H - 1) w = Inr w1
           \<and> indexBlock rpc H w1 = Inr w1
           \<and> indexBlock rpc (H + 1) w1 = Inr w2
           \<and> sync_iteration rpc w =
               (Indexed (H - 1) (H + 1), [H - 1, H, H + 1],
                w2\<lparr>w_db := setLastIndexedBlock (H + 1) (w_db w2)\<rparr>)
           \<and> getLastIndexedBlock (setLastIndexedBlock (H + 1) (w_db w2)) = Some (H + 1)
           \<and> w2 = \<lparr>w_db = (w_db w)
                     \<lparr>blocks :=
                        filter (\<lambda>r. bk_height r \<noteq> H + 1 \<and> bk_hash r \<noteq> b_hash b2)
                          (filter (\<lambda>r. bk_height r \<noteq> H - 1 \<and> bk_hash r \<noteq> b_hash b1)
                             (blocks (w_db w)) @ [block_row_of (H - 1) b1])
                          @ [block_row_of (H + 1) b2],
                      transactions :=
                        fold upsert_tx (tx_rows b2 0 (block_txs b2))
                          (fold upsert_tx (tx_rows b1 0 (block_txs b1)) (transactions (w_db w)))\<rparr>,
                   w_pending = w_pending w @ receipt_tasks b1 (block_txs b1)
                                 @ receipt_tasks b2 (block_txs b2)\<rparr>
           \<and> block_row_of (H - 1) b1 \<in> set (blocks (w_db w2))
           \<and> block_row_of (H + 1) b2 \<in> set (blocks (w_db w2))
           \<and> tr_hash ` set (tx_rows b1 0 (block_txs b1))
               \<union> tr_hash ` set (tx_rows b2 0 (block_txs b2))
               \<subseteq> tr_hash ` set (transactions (w_db w2))"
proof -
  have up: "[H - 1..H + 1] = [H - 1, H, H + 1]" by (simp add: upto_rec1)
  have fit1: "block_fits rpc (w_db w) (H - 1)"
    using answers unfolding consistent_answers_def up by simp
  let ?B1 = "filter (\<lambda>r. bk_height r \<noteq> H - 1 \<and> bk_hash r \<noteq> b_hash b1) (blocks (w_db w))
               @ [block_row_of (H - 1) b1]"
  let ?T1 = "fold upsert_tx (tx_rows b1 0 (block_txs b1)) (transactions (w_db w))"
  let ?w1 = "\<lparr>w_db = (w_db w)\<lparr>blocks := ?B1, transactions := ?T1\<rparr>,
              w_pending = w_pending w @ receipt_tasks b1 (block_txs b1)\<rparr>"
  have w1: "indexBlock rpc (H - 1) w = Inr ?w1"
    using indexBlock_found [OF before fit1] .
  have skip: "indexBlock rpc H ?w1 = Inr ?w1" using gap by (rule indexBlock_empty)
  have c1: "consistent_answers rpc (w_db ?w1) (H - 1 + 1) (H + 1)"
    using consistent_step [OF answers _ w1] by simp
  have up2: "[H - 1 + 1..H + 1] = [H, H + 1]" by (simp add: upto_rec1)
  have fit2: "block_fits rpc (w_db ?w1) (H + 1)"
    using c1 unfolding consistent_answers_def up2 by simp
  let ?B2 = "filter (\<lambda>r. bk_height r \<noteq> H + 1 \<and> bk_hash r \<noteq> b_hash b2) ?B1
               @ [block_row_of (H + 1) b2]"
  let ?T2 = "fold upsert_tx (tx_rows b2 0 (block_txs b2)) ?T1"
  let ?w2 = "\<lparr>w_db = (w_db w)\<lparr>blocks := ?B2, transactions := ?T2\<rparr>,
              w_pending = w_pending w @ receipt_tasks b1 (block_txs b1)
                            @ receipt_tasks b2 (block_txs b2)\<rparr>"
  have w2: "indexBlock rpc (H + 1) ?w1 = Inr ?w2"
    using indexBlock_found [OF after fit2] by simp
  have rng: "indexRange rpc (H - 1) (H + 1) w = (None, [H - 1, H, H + 1], ?w2)"
    using w1 skip w2 by (simp add: indexRange.simps)
  have s: "sync_iteration rpc w =
       (Indexed (H - 1) (H + 1), [H - 1, H, H + 1],
        ?w2\<lparr>w_db := setLastIndexedBlock (H + 1) (w_db ?w2)\<rparr>)"
    using height cursor rng by (simp add: sync_iteration_def Let_def batchSize_def)
  have h1: "answered_hash rpc (H - 1) = Some (b_hash b1)"
    and h2: "answered_hash rpc (H + 1) = Some (b_hash b2)"
    and h0: "answered_hash rpc H = None"
    using before after gap by (simp_all add: answered_hash_def)
  have ne: "b_hash b1 \<noteq> b_hash b2"
    using answers unfolding consistent_answers_def up by (simp add: h0 h1 h2)
  have r1: "block_row_of (H - 1) b1 \<in> set ?B2" using ne by (simp add: block_row_of_def)
  have r2: "block_row_of (H + 1) b2 \<in> set ?B2" by simp
  have t1: "tr_hash ` set (tx_rows b1 0 (block_txs b1)) \<subseteq> tr_hash ` set ?T1"
    using fold_upsert_keeps [of "transactions (w_db w)" "tx_rows b1 0 (block_txs b1)"] by blast
  have t2: "tr_hash ` set ?T1 \<union> tr_hash ` set (tx_rows b2 0 (block_txs b2))
      \<subseteq> tr_hash ` set ?T2"
    by (rule fold_upsert_keeps)
  have t: "tr_hash ` set (tx_rows b1 0 (block_txs b1))
               \<union> tr_hash ` set (tx_rows b2 0 (block_txs b2))
               \<subseteq> tr_hash ` set ?T2"
    using t1 t2 by blast
  have cur: "getLastIndexedBlock (setLastIndexedBlock (H + 1) (w_db ?w2)) = Some (H + 1)"
    by (rule getLastIndexedBlock_set)
  have b2: "blocks (w_db ?w2) = ?B2" and tr2: "transactions (w_db ?w2) = ?T2" by simp_all
  show ?thesis
    apply (rule exI [of _ ?w1])
    apply (rule exI [of _ ?w2])
    apply (intro conjI)
            apply (rule w1)
           apply (rule skip)
          apply (rule w2)
         apply (rule s)
        apply (rule cur)
       apply (rule refl)
      apply (unfold b2 tr2)
      apply (rule r1)
     apply (rule r2)
    apply (rule t)
    done
qed

lemma example_getBlock:
  "getBlock example_node 2 = Inr None"
  "getBlock example_node (2 - 1) = Inr (Some example_block1)"
  "getBlock example_node (2 + 1) = Inr (Some (example_block 3 ''hash3'' []))"
  "getBlockCount example_node = Inr (2 + 1)"
  by (simp_all add: example_node_def)

lemma example_world_cursor: "getLastIndexedBlock (w_db example_world) = Some (2 - 2)"
  by (simp add: example_world_def getLastIndexedBlock_set)

lemma example_consistent: "consistent_answers example_node (w_db example_world) (2 - 1) (2 + 1)"
  by code_simp

theorem gap_tolerance_witness:
  "getBlock example_node 2 = Inr None
   \<and> getBlock example_node (2 - 1) = Inr (Some example_block1)
   \<and> getBlock example_node (2 + 1) = Inr (Some (example_block 3 ''hash3'' []))
   \<and> getBlockCount example_node = Inr (2 + 1)
   \<and> getLastIndexedBlock (w_db example_world) = Some (2 - 2)
   \<and> consistent_answers example_node (w_db example_world) (2 - 1) (2 + 1)
   \<and> sync_iteration example_node example_world =
       (Indexed 1 3, [1, 2, 3],
        \<lparr>w_db = \<lparr>blocks = [example_block_row, example_block_row3],
                 transactions = [example_tx_row],
                 event_logs = [], tokens = [], token_transfers = [],
                 indexer_state = [(''last_block'', ''3'')]\<rparr>,
         w_pending = [(''tx1'', example_block1)]\<rparr>)
   \<and> w_db (settle example_node
        \<lparr>w_db = \<lparr>blocks = [example_block_row, example_block_row3],
                 transactions = [example_tx_row],
                 event_logs = [], tokens = [], token_transfers = [],
                 indexer_state = [(''last_block'', ''3'')]\<rparr>,
         w_pending = [(''tx1'', example_block1)]\<rparr>) =
       \<lparr>blocks = [example_block_row, example_block_row3],
        transactions = [example_tx_row],
        event_logs = [example_log_row], tokens = [example_token_row],
        token_transfers = [example_transfer_row],
        indexer_state = [(''last_block'', ''3'')]\<rparr>"
proof -
  let ?w2 = "\<lparr>w_db = (w_db example_world)
                     \<lparr>blocks :=
                        filter (\<lambda>r. bk_height r \<noteq> 2 + 1 \<and> bk_hash r \<noteq> b_hash (example_block 3 ''hash3'' []))
                          (filter (\<lambda>r. bk_height r \<noteq> 2 - 1 \<and> bk_hash r \<noteq> b_hash example_block1)
                             (blocks (w_db example_world)) @ [block_row_of (2 - 1) example_block1])
                          @ [block_row_of (2 + 1) (example_block 3 ''hash3'' [])],
                      transactions :=
                        fold upsert_tx (tx_rows (example_block 3 ''hash3'' []) 0 (block_txs (example_block 3 ''hash3'' [])))
                          (fold upsert_tx (tx_rows example_block1 0 (block_txs example_block1)) (transactions (w_db example_world)))\<rparr>,
                   w_pending = w_pending example_world @ receipt_tasks example_block1 (block_txs example_block1)
                                 @ receipt_tasks (example_block 3 ''hash3'' []) (block_txs (example_block 3 ''hash3'' []))\<rparr>"
  from gap_tolerance [OF example_getBlock example_world_cursor example_consistent]
  have s: "sync_iteration example_node example_world =
               (Indexed (2 - 1) (2 + 1), [2 - 1, 2, 2 + 1],
                ?w2\<lparr>w_db := setLastIndexedBlock (2 + 1) (w_db ?w2)\<rparr>)"
    by blast
  have v: "?w2\<lparr>w_db := setLastIndexedBlock (2 + 1) (w_db ?w2)\<rparr> =
        \<lparr>w_db = \<lparr>blocks = [example_block_row, example_block_row3],
                 transactions = [example_tx_row],
                 event_logs = [], tokens = [], token_transfers = [],
                 indexer_state = [(''last_block'', ''3'')]\<rparr>,
         w_pending = [(''tx1'', example_block1)]\<rparr>"
    by code_simp
  have "sync_iteration example_node example_world =
       (Indexed 1 3, [1, 2, 3],
        \<lparr>w_db = \<lparr>blocks = [example_block_row, example_block_row3],
                 transactions = [example_tx_row],
                 event_logs = [], tokens = [], token_transfers = [],
                 indexer_state = [(''last_block'', ''3'')]\<rparr>,
         w_pending = [(''tx1'', example_block1)]\<rparr>)"
    unfolding s v by simp
  moreover have "w_db (settle example_node
        \<lparr>w_db = \<lparr>blocks = [example_block_row, example_block_row3],
                 transactions = [example_tx_row],
                 event_logs = [], tokens = [], token_transfers = [],
                 indexer_state = [(''last_block'', ''3'')]\<rparr>,
         w_pending = [(''tx1'', example_block1)]\<rparr>) =
       \<lparr>blocks = [example_block_row, example_block_row3],
        transactions = [example_tx_row],
        event_logs = [example_log_row], tokens = [example_token_row],
        token_transfers = [example_transfer_row],
        indexer_state = [(''last_block'', ''3'')]\<rparr>"
    by code_simp
  ultimately show ?thesis
    using example_getBlock example_world_cursor example_consistent by simp
qed

text \<open>
  C10. On a store without a \<open>last_block\<close> row \<open>getLastIndexedBlock\<close> returns \<open>-1\<close>, and
  with a chain height \<open>h \<ge> 0\<close> the first sync iteration starts at height 0, for every
  node: either it indexes the heights \<open>0, 1, ...\<close> up to \<open>min (batchSize - 1) h\<close> and
  sets the cursor there, or \<open>indexBlock\<close> throws at a height \<open>k\<close> of this range, the
  heights passed are \<open>0\<close> to \<open>k\<close> and the cursor still reads \<open>-1\<close>. For a node with
  consistent answers \<open>k\<close> is the first height whose fetch throws, and the batch succeeds
  when no fetch throws.
\<close>

theorem genesis_batch:
  assumes fresh: "getIndexerState (w_db w) ''last_block'' = None"
    and height: "getBlockCount rpc = Inr h"
    and nonneg: "0 \<le> h"
  shows "getLastIndexedBlock (w_db w) = Some (- 1)
     \<and> ((\<exists>w'. sync_iteration rpc w =
                 (Indexed 0 (min (batchSize - 1) h), [0..min (batchSize - 1) h], w')
               \<and> getLastIndexedBlock (w_db w') = Some (min (batchSize - 1) h))
         \<or> (\<exists>k e w'. 0 \<le> k \<and> k \<le> min (batchSize - 1) h
               \<and> sync_iteration rpc w = (BackingOff e, [0..k], w')
               \<and> indexBlock rpc k w' = Inl e
               \<and> getLastIndexedBlock (w_db w') = Some (- 1)))
     \<and> (consistent_answers rpc (w_db w) 0 (min (batchSize - 1) h) \<longrightarrow>
         (case find (\<lambda>k. isl (getBlock rpc k)) [0..min (batchSize - 1) h] of
           None \<Rightarrow>
             (\<exists>w'. sync_iteration rpc w =
                     (Indexed 0 (min (batchSize - 1) h), [0..min (batchSize - 1) h], w')
                  \<and> getLastIndexedBlock (w_db w') = Some (min (batchSize - 1) h))
         | Some k \<Rightarrow>
             (\<exists>w'. sync_iteration rpc w = (BackingOff (projl (getBlock rpc k)), [0..k], w')
                  \<and> getLastIndexedBlock (w_db w') = Some (- 1))))"
proof -
  have c: "getLastIndexedBlock (w_db w) = Some (- 1)"
    using fresh by (simp add: getLastIndexedBlock_def)
  have lt: "(- 1 :: int) < h" using nonneg by simp
  have start: "(0::int) = - 1 + 1" by simp
  have stop: "min (batchSize - 1) h = min (0 + batchSize - 1) h" by simp
  have shape: "(\<exists>w'. sync_iteration rpc w =
                 (Indexed 0 (min (batchSize - 1) h), [0..min (batchSize - 1) h], w')
               \<and> getLastIndexedBlock (w_db w') = Some (min (batchSize - 1) h))
         \<or> (\<exists>k e w'. 0 \<le> k \<and> k \<le> min (batchSize - 1) h
               \<and> sync_iteration rpc w = (BackingOff e, [0..k], w')
               \<and> indexBlock rpc k w' = Inl e
               \<and> getLastIndexedBlock (w_db w') = Some (- 1))"
    using sync_iteration_shape [OF height c lt start stop] by blast
  have batch: "case find (\<lambda>k. isl (getBlock rpc k)) [0..min (batchSize - 1) h] of
           None \<Rightarrow>
             (\<exists>w'. sync_iteration rpc w =
                     (Indexed 0 (min (batchSize - 1) h), [0..min (batchSize - 1) h], w')
                  \<and> getLastIndexedBlock (w_db w') = Some (min (batchSize - 1) h))
         | Some k \<Rightarrow>
             (\<exists>w'. sync_iteration rpc w = (BackingOff (projl (getBlock rpc k)), [0..k], w')
                  \<and> getLastIndexedBlock (w_db w') = Some (- 1))"
    if "consistent_answers rpc (w_db w) 0 (min (batchSize - 1) h)"
    using sync_iteration_batch [OF height c lt start stop that]
    by (cases "find (\<lambda>k. isl (getBlock rpc k)) [0..min (batchSize - 1) h]") auto
  show ?thesis by (intro conjI impI c shape batch)
qed

theorem genesis_batch_witness:
  "getIndexerState (w_db fresh_world) ''last_block'' = None
   \<and> getBlockCount example_node = Inr 3
   \<and> (0::int) \<le> 3
   \<and> consistent_answers example_node (w_db fresh_world) 0 3
   \<and> getLastIndexedBlock (w_db fresh_world) = Some (- 1)
   \<and> (\<exists>w'. sync_iteration example_node fresh_world = (Indexed 0 3, [0, 1, 2, 3], w')
          \<and> getLastIndexedBlock (w_db w') = Some 3)"
proof -
  have a: "getIndexerState (w_db fresh_world) ''last_block'' = None"
    by (simp add: fresh_world_def empty_store_def getIndexerState_def)
  have b: "getBlockCount example_node = Inr 3" by (simp add: example_node_def)
  have c: "(0::int) \<le> 3" by simp
  have e: "min (batchSize - 1) 3 = (3::int)" by (simp add: batchSize_def)
  have f: "find (\<lambda>k. isl (getBlock example_node k)) [0..3] = None"
    by (simp add: example_node_def upto_rec1)
  have g: "consistent_answers example_node (w_db fresh_world) 0 3" by code_simp
  have "getLastIndexedBlock (w_db fresh_world) = Some (- 1)
     \<and> (\<exists>w'. sync_iteration example_node fresh_world = (Indexed 0 3, [0..3], w')
          \<and> getLastIndexedBlock (w_db w') = Some 3)"
    using genesis_batch [OF a b c] g unfolding e f by simp
  then show ?thesis using a b g by (simp add: upto_rec1)
qed

subsection \<open>Token discovery and the TokenTransfer invariant\<close>

lemma lower_char_idem: "lower_char (lower_char c) = lower_char c"
  by (simp add: lower_char_def Let_def)

lemma toLowerCase_idem: "toLowerCase (toLowerCase s) = toLowerCase s"
  by (simp add: toLowerCase_def lower_char_idem)

lemma getToken_None_iff: "getToken st a = None \<longleftrightarrow> a \<notin> tk_address ` set (tokens st)"
  by (auto simp: getToken_def find_None_iff)

lemma getToken_iff: "getToken st a \<noteq> None \<longleftrightarrow> a \<in> tk_address ` set (tokens st)"
  using getToken_None_iff [of st a] by simp

lemma has_token_iff: "has_token st a \<longleftrightarrow> a \<in> tk_address ` set (tokens st)"
  by (auto simp: has_token_def list_ex_iff)

lemma inv_iff:
  "transfers_have_tokens st \<longleftrightarrow>
     (\<forall>t \<in> set (token_transfers st). tt_token_address t \<in> tk_address ` set (tokens st))"
  unfolding transfers_have_tokens_def list_all_iff getToken_iff ..

lemma inv_cong:
  "tokens a = tokens b \<Longrightarrow> token_transfers a = token_transfers b \<Longrightarrow>
     transfers_have_tokens a = transfers_have_tokens b"
  by (simp add: transfers_have_tokens_def getToken_def)

lemma find_filter_append:
  "tk_address row = a \<Longrightarrow>
     find (\<lambda>r. tk_address r = a) (filter (\<lambda>r. tk_address r \<noteq> a) xs @ [row]) = Some row"
  by (induction xs) auto

lemma filter_absent:
  "find (\<lambda>r. tk_address r = a) xs = None \<Longrightarrow> filter (\<lambda>r. tk_address r \<noteq> a) xs = xs"
  by (induction xs) (auto split: if_splits)

lemma detectToken_effect:
  assumes "detectToken rpc x st = (ret, calls, st')"
  shows "token_transfers st' = token_transfers st"
    and "transactions st' = transactions st"
    and "tk_address ` set (tokens st) \<subseteq> tk_address ` set (tokens st')"
    and "toLowerCase x \<in> tk_address ` set (tokens st')"
proof -
  show "token_transfers st' = token_transfers st"
    using assms by (auto simp: detectToken_def Let_def insertToken_eq split: option.splits)
  show "transactions st' = transactions st"
    using assms by (auto simp: detectToken_def Let_def insertToken_eq split: option.splits)
  show "tk_address ` set (tokens st) \<subseteq> tk_address ` set (tokens st')"
    using assms
    by (auto simp: detectToken_def Let_def insertToken_eq split: option.splits)
  show "toLowerCase x \<in> tk_address ` set (tokens st')"
  proof (cases "getToken st (toLowerCase x)")
    case None
    then show ?thesis using assms by (auto simp: detectToken_def Let_def insertToken_eq)
  next
    case (Some row)
    then have "st' = st" using assms by (simp add: detectToken_def)
    moreover have "toLowerCase x \<in> tk_address ` set (tokens st)"
      using Some getToken_iff [of st "toLowerCase x"] by simp
    ultimately show ?thesis by simp
  qed
qed

lemma detectToken_inv:
  assumes "transfers_have_tokens st"
  shows "transfers_have_tokens (snd (snd (detectToken rpc x st)))"
proof -
  obtain ret calls st' where d: "detectToken rpc x st = (ret, calls, st')"
    by (cases "detectToken rpc x st") auto
  show ?thesis using assms detectToken_effect(1,3) [OF d] d by (auto simp: inv_iff)
qed

text \<open>
  The store refuses a TokenTransfer row whose token address has no Token row, so
  \<open>insertTransfer\<close> keeps the invariant whenever it succeeds.
\<close>

lemma insertTransfer_inv:
  assumes "insertTransfer row st = Inr st'" and "transfers_have_tokens st"
  shows "transfers_have_tokens st'"
  using assms
  by (auto simp: insertTransfer_def inv_iff has_token_iff split: if_splits)

lemma insertLog_Inr:
  "insertLog row st = Inr st' \<Longrightarrow> st' = st\<lparr>event_logs := event_logs st @ [row]\<rparr>"
  by (auto simp: insertLog_def split: if_splits)

lemma indexLog_inv:
  assumes "transfers_have_tokens st"
  shows "transfers_have_tokens (snd (indexLog rpc txid log block i st))"
proof (cases "insertLog (log_row_of txid log block i) st")
  case (Inl e)
  then show ?thesis using assms by (simp add: indexLog_def)
next
  case (Inr st1)
  have i1: "transfers_have_tokens st1"
    using assms insertLog_Inr [OF Inr] inv_cong [of st1 st] by simp
  show ?thesis
  proof (cases "is_transfer_log log")
    case False
    then show ?thesis using Inr i1 by (simp add: indexLog_def)
  next
    case True
    show ?thesis
    proof (cases "l_address log")
      case None
      then show ?thesis using Inr True i1 by (simp add: indexLog_def)
    next
      case (Some a)
      let ?st2 = "snd (snd (detectToken rpc (toLowerCase a) st1))"
      let ?row = "transfer_row_of txid log (toLowerCase a) block i"
      have i2: "transfers_have_tokens ?st2" using detectToken_inv [OF i1] .
      show ?thesis
      proof (cases "insertTransfer ?row ?st2")
        case (Inl e)
        then show ?thesis using Inr True Some i2 by (simp add: indexLog_def Let_def)
      next
        case st3: (Inr st3)
        have "transfers_have_tokens st3" using insertTransfer_inv [OF st3 i2] .
        then show ?thesis using Inr True Some st3 by (simp add: indexLog_def Let_def)
      qed
    qed
  qed
qed

text \<open>
  The moment of the insertion: for a Transfer log of a stored transaction, \<open>indexLog\<close>
  writes the EventLog row, then \<open>detectToken\<close> leaves a store that holds the Token row
  of the emitting address, and the TokenTransfer row is inserted into that store, which
  accepts it.
\<close>

lemma indexLog_transfer:
  assumes t: "is_transfer_log log" and a: "l_address log = Some a" and tx: "has_tx st txid"
  shows "let st1 = st\<lparr>event_logs := event_logs st @ [log_row_of txid log block i]\<rparr>;
             st2 = snd (snd (detectToken rpc (toLowerCase a) st1))
         in getToken st2 (toLowerCase a) \<noteq> None
            \<and> tt_token_address (transfer_row_of txid log (toLowerCase a) block i) = toLowerCase a
            \<and> token_transfers st2 = token_transfers st
            \<and> indexLog rpc txid log block i st =
                (None, st2\<lparr>token_transfers := token_transfers st
                             @ [transfer_row_of txid log (toLowerCase a) block i]\<rparr>)"
proof -
  let ?st1 = "st\<lparr>event_logs := event_logs st @ [log_row_of txid log block i]\<rparr>"
  let ?row = "transfer_row_of txid log (toLowerCase a) block i"
  have key: "lg_tx_hash (log_row_of txid log block i) = txid"
    "tt_tx_hash ?row = txid" "tt_token_address ?row = toLowerCase a"
    by (simp_all add: log_row_of_def transfer_row_of_def Let_def)
  have ins1: "insertLog (log_row_of txid log block i) st = Inr ?st1"
    using tx by (simp add: insertLog_def key)
  obtain ret calls st2 where d: "detectToken rpc (toLowerCase a) ?st1 = (ret, calls, st2)"
    by (cases "detectToken rpc (toLowerCase a) ?st1") auto
  have there: "toLowerCase a \<in> tk_address ` set (tokens st2)"
    using detectToken_effect(4) [OF d] by (simp add: toLowerCase_idem)
  have g: "getToken st2 (toLowerCase a) \<noteq> None" using there by (simp only: getToken_iff)
  have tr: "token_transfers st2 = token_transfers st"
    using detectToken_effect(1) [OF d] by simp
  have "transactions st2 = transactions st" using detectToken_effect(2) [OF d] by simp
  then have tx2: "has_tx st2 txid" using tx by (simp add: has_tx_def)
  have ins2: "insertTransfer ?row st2 = Inr (st2\<lparr>token_transfers := token_transfers st @ [?row]\<rparr>)"
    using tx2 there tr by (simp add: insertTransfer_def key has_token_iff)
  have "indexLog rpc txid log block i st =
      (None, st2\<lparr>token_transfers := token_transfers st @ [?row]\<rparr>)"
    using t a ins1 d ins2 by (simp add: indexLog_def Let_def)
  then show ?thesis using g tr d key(3) by (simp add: Let_def)
qed

lemma indexLogs_inv:
  "transfers_have_tokens st \<Longrightarrow> transfers_have_tokens (snd (indexLogs rpc txid block i logs st))"
proof (induction logs arbitrary: i st)
  case Nil
  then show ?case by simp
next
  case (Cons log logs)
  obtain e st' where r: "indexLog rpc txid log block i st = (e, st')"
    by (cases "indexLog rpc txid log block i st") auto
  have st': "transfers_have_tokens st'" using indexLog_inv [OF Cons.prems, of rpc txid log block i] r by simp
  show ?case
  proof (cases e)
    case None
    then show ?thesis using r Cons.IH [OF st'] by simp
  next
    case (Some err)
    then show ?thesis using r st' by simp
  qed
qed

lemma indexReceipts_inv:
  "transfers_have_tokens st \<Longrightarrow> transfers_have_tokens (snd (indexReceipts rpc txid block rs st))"
proof (induction rs arbitrary: st)
  case Nil
  then show ?case by simp
next
  case (Cons receipt rs)
  let ?r = "case r_log receipt of None \<Rightarrow> (None, st) | Some logs \<Rightarrow> indexLogs rpc txid block 0 logs st"
  obtain e st1 where r: "?r = (e, st1)" by (cases ?r) auto
  have st1: "transfers_have_tokens st1"
  proof (cases "r_log receipt")
    case None
    then show ?thesis using Cons.prems r by simp
  next
    case (Some logs)
    then have "st1 = snd (indexLogs rpc txid block 0 logs st)" using r by simp
    then show ?thesis using indexLogs_inv [OF Cons.prems] by simp
  qed
  show ?case
  proof (cases e)
    case (Some err)
    then show ?thesis using r st1 by simp
  next
    case None
    let ?st2 = "case or_null (r_contractAddress receipt) of None \<Rightarrow> st1
                | Some a \<Rightarrow> snd (snd (detectToken rpc a st1))"
    have "transfers_have_tokens ?st2"
      using st1 detectToken_inv [OF st1] by (auto split: option.splits)
    from Cons.IH [OF this] show ?thesis using r None by simp
  qed
qed

lemma indexReceipt_inv:
  "transfers_have_tokens st \<Longrightarrow> transfers_have_tokens (indexReceipt rpc txid block st)"
  by (auto simp: indexReceipt_def indexReceipts_inv split: sum.splits option.splits)

lemma settle_inv:
  "transfers_have_tokens (w_db w) \<Longrightarrow> transfers_have_tokens (w_db (settle rpc w))"
proof -
  have "transfers_have_tokens st \<Longrightarrow> transfers_have_tokens (fold (run_task rpc) tasks st)"
    for tasks st
    by (induction tasks arbitrary: st) (simp_all add: run_task_def indexReceipt_inv)
  then show "transfers_have_tokens (w_db w) \<Longrightarrow> transfers_have_tokens (w_db (settle rpc w))"
    by (simp add: settle_def)
qed

lemma indexRange_tokens:
  "indexRange rpc s e w = (r, hs, w') \<Longrightarrow>
     tokens (w_db w') = tokens (w_db w) \<and> token_transfers (w_db w') = token_transfers (w_db w)"
proof (induction rpc s e w arbitrary: r hs w' rule: indexRange.induct)
  case (1 rpc height endBlock w)
  show ?case
  proof (cases "height \<le> endBlock")
    case False
    then show ?thesis using "1.prems" by (simp add: indexRange.simps)
  next
    case True
    show ?thesis
    proof (cases "indexBlock rpc height w")
      case (Inl e)
      then show ?thesis using True "1.prems" by (simp add: indexRange.simps)
    next
      case (Inr w1)
      obtain r2 hs2 w2 where rec: "indexRange rpc (height + 1) endBlock w1 = (r2, hs2, w2)"
        by (cases "indexRange rpc (height + 1) endBlock w1") auto
      have "w' = w2" using True Inr rec "1.prems" by (simp add: indexRange.simps)
      then show ?thesis using "1.IH" [OF True Inr rec] indexBlock_tokens [OF Inr] by simp
    qed
  qed
qed

lemma sync_iteration_tokens:
  assumes "sync_iteration rpc w = (out, hs, w')"
  shows "tokens (w_db w') = tokens (w_db w) \<and> token_transfers (w_db w') = token_transfers (w_db w)"
proof (cases "getBlockCount rpc")
  case (Inl e)
  then show ?thesis using assms by (simp add: sync_iteration_def)
next
  case (Inr h)
  show ?thesis
  proof (cases "getLastIndexedBlock (w_db w)")
    case None
    then show ?thesis using assms Inr by (auto simp: sync_iteration_def setIndexerState_def)
  next
    case (Some c)
    show ?thesis
    proof (cases "c \<ge> h")
      case True
      then show ?thesis using assms Inr Some by (simp add: sync_iteration_def)
    next
      case False
      let ?s = "c + 1"
      let ?e = "min (c + 1 + batchSize - 1) h"
      obtain r hs1 w1 where rng: "indexRange rpc ?s ?e w = (r, hs1, w1)"
        by (cases "indexRange rpc ?s ?e w") auto
      have "tokens (w_db w') = tokens (w_db w1) \<and> token_transfers (w_db w') = token_transfers (w_db w1)"
        using assms Inr Some False rng
        by (cases r) (auto simp: sync_iteration_def Let_def setLastIndexedBlock_def setIndexerState_def)
      then show ?thesis using indexRange_tokens [OF rng] by simp
    qed
  qed
qed

text \<open>
  C7. Every TokenTransfer row references a Token row of the store, and every operation of
  the indexer keeps it so: \<open>detectToken\<close>, \<open>indexLog\<close>, \<open>indexReceipt\<close>,
  \<open>indexBlock\<close>, the completion of the pending receipts and a sync iteration. The
  moment of the insertion is spelled out in the last part: for a Transfer log emitted by
  the address \<open>x\<close> in a stored transaction, let \<open>st1\<close> be the store with the EventLog
  row added and \<open>st2\<close> the store that \<open>detectToken\<close> leaves from \<open>st1\<close>. Then \<open>st2\<close>
  holds the Token row of the lower-cased address, which is the token address of the
  TokenTransfer row, and no TokenTransfer row more than the initial store, whatever the
  metadata probes answered; and \<open>indexLog\<close> ends without an exception in the store
  \<open>st2\<close> with the TokenTransfer row appended. (Were the
  TokenTransfer row inserted before the Token row, the store would refuse it.)
\<close>

theorem transfers_reference_tokens:
  assumes "transfers_have_tokens (w_db w)"
  shows "transfers_have_tokens (snd (snd (detectToken rpc a (w_db w))))
     \<and> transfers_have_tokens (snd (indexLog rpc txid log block i (w_db w)))
     \<and> transfers_have_tokens (indexReceipt rpc txid block (w_db w))
     \<and> (case indexBlock rpc height w of Inl e \<Rightarrow> True | Inr w' \<Rightarrow> transfers_have_tokens (w_db w'))
     \<and> transfers_have_tokens (w_db (settle rpc w))
     \<and> transfers_have_tokens (w_db (snd (snd (sync_iteration rpc w))))
     \<and> (is_transfer_log log \<and> l_address log = Some x \<and> has_tx (w_db w) txid \<longrightarrow>
          (let st1 = (w_db w)\<lparr>event_logs := event_logs (w_db w) @ [log_row_of txid log block i]\<rparr>;
               st2 = snd (snd (detectToken rpc (toLowerCase x) st1))
           in getToken st2 (toLowerCase x) \<noteq> None
              \<and> tt_token_address (transfer_row_of txid log (toLowerCase x) block i) = toLowerCase x
              \<and> token_transfers st2 = token_transfers (w_db w)
              \<and> indexLog rpc txid log block i (w_db w) =
                  (None, st2\<lparr>token_transfers := token_transfers (w_db w)
                               @ [transfer_row_of txid log (toLowerCase x) block i]\<rparr>)))"
proof -
  have blk: "case indexBlock rpc height w of Inl e \<Rightarrow> True | Inr w' \<Rightarrow> transfers_have_tokens (w_db w')"
  proof (cases "indexBlock rpc height w")
    case (Inl e)
    then show ?thesis by simp
  next
    case (Inr w1)
    then show ?thesis
      using assms indexBlock_tokens [OF Inr] inv_cong [of "w_db w1" "w_db w"] by simp
  qed
  obtain out hs w' where s: "sync_iteration rpc w = (out, hs, w')"
    by (cases "sync_iteration rpc w") auto
  have syn: "transfers_have_tokens (w_db (snd (snd (sync_iteration rpc w))))"
    using assms sync_iteration_tokens [OF s] s inv_cong [of "w_db w'" "w_db w"] by simp
  have moment: "is_transfer_log log \<and> l_address log = Some x \<and> has_tx (w_db w) txid \<longrightarrow>
          (let st1 = (w_db w)\<lparr>event_logs := event_logs (w_db w) @ [log_row_of txid log block i]\<rparr>;
               st2 = snd (snd (detectToken rpc (toLowerCase x) st1))
           in getToken st2 (toLowerCase x) \<noteq> None
              \<and> tt_token_address (transfer_row_of txid log (toLowerCase x) block i) = toLowerCase x
              \<and> token_transfers st2 = token_transfers (w_db w)
              \<and> indexLog rpc txid log block i (w_db w) =
                  (None, st2\<lparr>token_transfers := token_transfers (w_db w)
                               @ [transfer_row_of txid log (toLowerCase x) block i]\<rparr>))"
    using indexLog_transfer [of log x "w_db w" txid block i rpc] by blast
  show ?thesis
    by (intro conjI detectToken_inv [OF assms] indexLog_inv [OF assms]
        indexReceipt_inv [OF assms] settle_inv [OF assms] blk syn moment)
qed

theorem transfers_reference_tokens_witness:
  "transfers_have_tokens (w_db \<lparr>w_db = example_committed, w_pending = []\<rparr>)
   \<and> is_transfer_log example_transfer_log
   \<and> l_address example_transfer_log = Some example_token
   \<and> has_tx example_committed ''tx1''
   \<and> getToken example_committed (toLowerCase example_token) = None
   \<and> getToken (example_committed\<lparr>event_logs := [example_log_row], tokens := [example_token_row]\<rparr>)
        (toLowerCase example_token) = Some example_token_row
   \<and> indexLog example_node ''tx1'' example_transfer_log example_block1 0 example_committed =
        (None, example_committed\<lparr>event_logs := [example_log_row], tokens := [example_token_row],
                 token_transfers := [example_transfer_row]\<rparr>)
   \<and> transfers_have_tokens
        (snd (indexLog example_node ''tx1'' example_transfer_log example_block1 0 example_committed))
   \<and> transfers_have_tokens (indexReceipt example_node ''tx1'' example_block1 example_committed)
   \<and> token_transfers (indexReceipt example_node ''tx1'' example_block1 example_committed) =
        [example_transfer_row]"
proof -
  let ?w = "\<lparr>w_db = example_committed, w_pending = []\<rparr>"
  have h: "transfers_have_tokens (w_db ?w)" by code_simp
  have p: "is_transfer_log example_transfer_log \<and> l_address example_transfer_log = Some example_token
      \<and> has_tx (w_db ?w) ''tx1''"
    by code_simp
  note t = transfers_reference_tokens [OF h, where rpc = example_node and txid = "''tx1''"
        and log = example_transfer_log and block = example_block1 and i = 0
        and x = example_token]
  have st2: "snd (snd (detectToken example_node (toLowerCase example_token)
        ((w_db ?w)\<lparr>event_logs := event_logs (w_db ?w)
            @ [log_row_of ''tx1'' example_transfer_log example_block1 0]\<rparr>))) =
      example_committed\<lparr>event_logs := [example_log_row], tokens := [example_token_row]\<rparr>"
    by code_simp
  have row: "transfer_row_of ''tx1'' example_transfer_log (toLowerCase example_token)
        example_block1 0 = example_transfer_row"
    by code_simp
  have tt: "token_transfers (w_db ?w) = []" by code_simp
  have g0: "getToken example_committed (toLowerCase example_token) = None" by code_simp
  have g1: "getToken (example_committed\<lparr>event_logs := [example_log_row], tokens := [example_token_row]\<rparr>)
        (toLowerCase example_token) = Some example_token_row" by code_simp
  have r: "token_transfers (indexReceipt example_node ''tx1'' example_block1 example_committed) =
        [example_transfer_row]" by code_simp
  from t p have "let st1 = (w_db ?w)\<lparr>event_logs := event_logs (w_db ?w)
                      @ [log_row_of ''tx1'' example_transfer_log example_block1 0]\<rparr>;
               st2 = snd (snd (detectToken example_node (toLowerCase example_token) st1))
           in getToken st2 (toLowerCase example_token) \<noteq> None
              \<and> tt_token_address (transfer_row_of ''tx1'' example_transfer_log
                     (toLowerCase example_token) example_block1 0) = toLowerCase example_token
              \<and> token_transfers st2 = token_transfers (w_db ?w)
              \<and> indexLog example_node ''tx1'' example_transfer_log example_block1 0 (w_db ?w) =
                  (None, st2\<lparr>token_transfers := token_transfers (w_db ?w)
                               @ [transfer_row_of ''tx1'' example_transfer_log
                                    (toLowerCase example_token) example_block1 0]\<rparr>)"
    by blast
  then have m: "indexLog example_node ''tx1'' example_transfer_log example_block1 0 example_committed =
        (None, example_committed\<lparr>event_logs := [example_log_row], tokens := [example_token_row],
                 token_transfers := [example_transfer_row]\<rparr>)"
    unfolding Let_def st2 row tt by simp
  have i: "transfers_have_tokens
        (snd (indexLog example_node ''tx1'' example_transfer_log example_block1 0 (w_db ?w)))"
    "transfers_have_tokens (indexReceipt example_node ''tx1'' example_block1 (w_db ?w))"
    using t by blast+
  show ?thesis using h p g0 g1 m i r by simp
qed

text \<open>
  C8. When a Token row is stored under the lower-cased address, \<open>detectToken\<close> returns
  it, issues no call to the node and leaves the store as it is. Otherwise it issues the
  four probes (name, symbol, decimals, total supply) on the address, takes
  \<open>"Unknown"\<close>, \<open>"???"\<close>, \<open>18\<close> and \<open>"0"\<close> for each probe that fails, each on its
  own, and appends the Token row with these values under the lower-cased address; the
  row is found by \<open>getToken\<close> afterwards, also when every probe fails.
\<close>

theorem detectToken_contract:
  "case getToken st (toLowerCase a) of
     Some existing \<Rightarrow> detectToken rpc a st = (Some existing, [], st)
   | None \<Rightarrow>
       (\<exists>ret st' row.
          detectToken rpc a st =
            (ret, [CallTokenName a, CallTokenSymbol a, CallTokenDecimals a,
                   CallTokenTotalSupply a], st')
          \<and> row = \<lparr>tk_address = toLowerCase a,
                    tk_name = (case getTokenName rpc a of Inl e \<Rightarrow> ''Unknown'' | Inr v \<Rightarrow> v),
                    tk_symbol = (case getTokenSymbol rpc a of Inl e \<Rightarrow> ''???'' | Inr v \<Rightarrow> v),
                    tk_decimals = (case getTokenDecimals rpc a of Inl e \<Rightarrow> 18 | Inr v \<Rightarrow> v),
                    tk_total_supply =
                      (case getTokenTotalSupply rpc a of Inl e \<Rightarrow> ''0'' | Inr v \<Rightarrow> v),
                    tk_owner = None\<rparr>
          \<and> st' = st\<lparr>tokens := tokens st @ [row]\<rparr>
          \<and> getToken st' (toLowerCase a) = Some row)"
proof (cases "getToken st (toLowerCase a)")
  case (Some existing)
  then show ?thesis by (simp add: detectToken_def)
next
  case None
  let ?row = "\<lparr>tk_address = toLowerCase a,
                    tk_name = (case getTokenName rpc a of Inl e \<Rightarrow> ''Unknown'' | Inr v \<Rightarrow> v),
                    tk_symbol = (case getTokenSymbol rpc a of Inl e \<Rightarrow> ''???'' | Inr v \<Rightarrow> v),
                    tk_decimals = (case getTokenDecimals rpc a of Inl e \<Rightarrow> 18 | Inr v \<Rightarrow> v),
                    tk_total_supply =
                      (case getTokenTotalSupply rpc a of Inl e \<Rightarrow> ''0'' | Inr v \<Rightarrow> v),
                    tk_owner = None\<rparr>"
  have keep: "filter (\<lambda>r. tk_address r \<noteq> toLowerCase a) (tokens st) = tokens st"
    using None by (simp add: getToken_def filter_absent)
  have ins: "insertToken ?row st = Inr (st\<lparr>tokens := tokens st @ [?row]\<rparr>)"
    using keep by (simp add: insertToken_eq)
  have d: "detectToken rpc a st =
      (Some (?row\<lparr>tk_address := a\<rparr>),
       [CallTokenName a, CallTokenSymbol a, CallTokenDecimals a, CallTokenTotalSupply a],
       st\<lparr>tokens := tokens st @ [?row]\<rparr>)"
    using None ins by (simp add: detectToken_def Let_def probe_or_def)
  have g: "getToken (st\<lparr>tokens := tokens st @ [?row]\<rparr>) (toLowerCase a) = Some ?row"
    using find_filter_append [of ?row "toLowerCase a" "tokens st"] keep
    by (simp add: getToken_def)
  show ?thesis using None d g by simp
qed

lemma example_detectToken:
  "detectToken example_node example_token empty_store =
     (Some \<lparr>tk_address = example_token, tk_name = ''Unknown'', tk_symbol = ''TOK'',
            tk_decimals = 8, tk_total_supply = ''0'', tk_owner = None\<rparr>,
      [CallTokenName example_token, CallTokenSymbol example_token,
       CallTokenDecimals example_token, CallTokenTotalSupply example_token],
      empty_store\<lparr>tokens := [example_token_row]\<rparr>)"
  by code_simp

text \<open>
  Discovery happens once: after \<open>detectToken\<close> has run for an address, a second call
  finds the row, issues no call to the node and leaves the store as it is.
\<close>

lemma detectToken_memoized:
  assumes "detectToken rpc a st = (ret, calls, st')"
  shows "\<exists>row. detectToken rpc a st' = (Some row, [], st')"
proof -
  have "toLowerCase a \<in> tk_address ` set (tokens st')"
    using detectToken_effect(4) [OF assms] .
  then have "getToken st' (toLowerCase a) \<noteq> None" by (simp only: getToken_iff)
  then obtain row where "getToken st' (toLowerCase a) = Some row" by blast
  then show ?thesis by (simp add: detectToken_def)
qed

subsection \<open>Re-indexing a height\<close>

text \<open>
  Indexing a height a second time, with the same answer of the node, leaves the
  \<open>blocks\<close> and \<open>transactions\<close> tables as the first run left them: both statements are
  \<open>INSERT OR REPLACE\<close> on a natural key.
\<close>

lemma fold_upsert_split:
  "fold upsert_tx rs T = filter (\<lambda>x. tr_hash x \<notin> tr_hash ` set rs) T @ fold upsert_tx rs []"
proof (induction rs arbitrary: T)
  case Nil
  then show ?case by simp
next
  case (Cons r rs)
  have a: "fold upsert_tx (r # rs) T =
      filter (\<lambda>x. tr_hash x \<notin> tr_hash ` set rs) (upsert_tx r T) @ fold upsert_tx rs []"
    using Cons.IH [of "upsert_tx r T"] by simp
  have u: "upsert_tx r [] = [r]" by (simp add: upsert_tx_def)
  have b: "fold upsert_tx (r # rs) [] =
      filter (\<lambda>x. tr_hash x \<notin> tr_hash ` set rs) [r] @ fold upsert_tx rs []"
    using Cons.IH [of "[r]"] by (simp only: fold_simps u o_apply)
  have c: "filter (\<lambda>x. tr_hash x \<notin> tr_hash ` set rs) (upsert_tx r T) =
      filter (\<lambda>x. tr_hash x \<notin> tr_hash ` set (r # rs)) T
        @ filter (\<lambda>x. tr_hash x \<notin> tr_hash ` set rs) [r]"
    by (auto simp: upsert_tx_def intro: filter_cong)
  show ?case unfolding a b c by simp
qed

lemma fold_upsert_hashes:
  "tr_hash ` set (fold upsert_tx rs T) \<subseteq> tr_hash ` set T \<union> tr_hash ` set rs"
proof (induction rs arbitrary: T)
  case Nil
  then show ?case by simp
next
  case (Cons r rs)
  have first: "tr_hash ` set (upsert_tx r T) \<subseteq> insert (tr_hash r) (tr_hash ` set T)"
    by (auto simp: upsert_tx_def)
  from Cons.IH [of "upsert_tx r T"]
  have "tr_hash ` set (fold upsert_tx (r # rs) T)
      \<subseteq> tr_hash ` set (upsert_tx r T) \<union> tr_hash ` set rs"
    by simp
  also have "\<dots> \<subseteq> insert (tr_hash r) (tr_hash ` set T) \<union> tr_hash ` set rs"
    using first by blast
  also have "\<dots> = tr_hash ` set T \<union> tr_hash ` set (r # rs)" by auto
  finally show ?case .
qed

lemma fold_upsert_idem: "fold upsert_tx rs (fold upsert_tx rs T) = fold upsert_tx rs T"
proof -
  let ?keep = "\<lambda>x. tr_hash x \<notin> tr_hash ` set rs"
  have gone: "filter ?keep (fold upsert_tx rs []) = []"
    using fold_upsert_hashes [of rs "[]"] by (auto simp: filter_empty_conv)
  have "fold upsert_tx rs (fold upsert_tx rs T) =
      filter ?keep (fold upsert_tx rs T) @ fold upsert_tx rs []"
    by (rule fold_upsert_split)
  also have "filter ?keep (fold upsert_tx rs T) = filter ?keep T"
    by (subst fold_upsert_split [of rs T]) (simp add: gone)
  also have "filter ?keep T @ fold upsert_tx rs [] = fold upsert_tx rs T"
    by (rule fold_upsert_split [symmetric])
  finally show ?thesis .
qed

lemma reindex_blocks_transactions:
  assumes "indexBlock rpc H w = Inr w1" and "indexBlock rpc H w1 = Inr w2"
  shows "blocks (w_db w2) = blocks (w_db w1) \<and> transactions (w_db w2) = transactions (w_db w1)"
proof -
  from indexBlock_Inr [OF assms(1)] show ?thesis
  proof
    assume "getBlock rpc H = Inr None \<and> w1 = w"
    then show ?thesis using indexBlock_Inr [OF assms(2)] by auto
  next
    assume "\<exists>b. getBlock rpc H = Inr (Some b)
          \<and> w1 = \<lparr>w_db = (w_db w)
                    \<lparr>blocks := filter (\<lambda>r. bk_height r \<noteq> H \<and> bk_hash r \<noteq> b_hash b)
                                 (blocks (w_db w)) @ [block_row_of H b],
                     transactions := fold upsert_tx (tx_rows b 0 (block_txs b))
                                       (transactions (w_db w))\<rparr>,
                  w_pending = w_pending w @ receipt_tasks b (block_txs b)\<rparr>"
    then obtain b where b: "getBlock rpc H = Inr (Some b)"
      and b1: "blocks (w_db w1) =
          filter (\<lambda>r. bk_height r \<noteq> H \<and> bk_hash r \<noteq> b_hash b) (blocks (w_db w))
            @ [block_row_of H b]"
      and t1: "transactions (w_db w1) =
          fold upsert_tx (tx_rows b 0 (block_txs b)) (transactions (w_db w))"
      by auto
    from indexBlock_Inr [OF assms(2)] b
    have b2: "blocks (w_db w2) =
          filter (\<lambda>r. bk_height r \<noteq> H \<and> bk_hash r \<noteq> b_hash b) (blocks (w_db w1))
            @ [block_row_of H b]"
      and t2: "transactions (w_db w2) =
          fold upsert_tx (tx_rows b 0 (block_txs b)) (transactions (w_db w1))"
      by auto
    have "blocks (w_db w2) = blocks (w_db w1)"
      unfolding b2 unfolding b1 by (simp add: block_row_of_def)
    moreover have "transactions (w_db w2) = transactions (w_db w1)"
      unfolding t2 unfolding t1 by (rule fold_upsert_idem)
    ultimately show ?thesis by simp
  qed
qed

subsection \<open>Evaluations on the example node\<close>

text \<open>
  C1. Re-indexing a height is meant to leave no duplicate EventLog or TokenTransfer row.
  Block 1 of the example node is indexed to completion on the empty store, and then
  once more on the resulting store. The second run leaves the Block, Transaction and
  Token rows as they are (\<open>INSERT OR REPLACE\<close>) and appends a second EventLog row and a
  second TokenTransfer row for the same transaction hash and log index (\<open>INSERT\<close> into
  tables whose only key is the synthetic id).
\<close>

theorem reindex_appends_duplicates:
  "index_and_settle example_node 1 empty_store = Inr example_store1
   \<and> index_and_settle example_node 1 example_store1 =
       Inr (example_store1\<lparr>event_logs := [example_log_row, example_log_row],
              token_transfers := [example_transfer_row, example_transfer_row]\<rparr>)"
  by code_simp

text \<open>
  C2. The indexer is meant to store the value of a transfer as the decimal string of the
  unsigned integer in the log's data. The Transfer log of the example node, whose
  payload encodes 1000, is indexed on the store that holds the Block row and the
  Transaction row of its transaction: \<open>indexLog\<close> writes the addresses as claimed
  (\<open>0x\<close> and the last 40 characters of the topic, lower-cased) and writes the payload
  itself as the value; \<open>decodeUint256\<close> of the standalone explorer turns the same
  digits into \<open>"1000"\<close>. (On the empty store, which lacks the Transaction row, the
  store refuses the EventLog row and nothing is written.)
\<close>

theorem indexLog_stores_raw_value:
  "indexLog example_node ''tx1'' example_transfer_log example_block1 0 example_committed =
     (None, example_committed\<lparr>event_logs := [example_log_row], tokens := [example_token_row],
              token_transfers := [example_transfer_row]\<rparr>)
   \<and> tt_from_address example_transfer_row = ''0xaaaaaaaaaaaaaaaaaaaaaaaaaaaaaaaaaaaaaaaa''
   \<and> tt_to_address example_transfer_row = ''0xbbbbbbbbbbbbbbbbbbbbbbbbbbbbbbbbbbbbbbbb''
   \<and> tt_value example_transfer_row =
        Some ''0x00000000000000000000000000000000000000000000000000000000000003e8''
   \<and> decodeUint256 (Some ''00000000000000000000000000000000000000000000000000000000000003e8'')
        = Inr ''1000''
   \<and> indexLog example_node ''tx1'' example_transfer_log example_block1 0 empty_store =
       (Some SqliteError, empty_store)"
  by code_simp

text \<open>
  For every node and height, the transaction of \<open>indexBlock\<close> writes no EventLog,
  Token or TokenTransfer row: what it returns has these tables as they were.
\<close>

lemma indexBlock_defers_logs:
  assumes "indexBlock rpc height w = Inr w'"
  shows "event_logs (w_db w') = event_logs (w_db w)
     \<and> tokens (w_db w') = tokens (w_db w)
     \<and> token_transfers (w_db w') = token_transfers (w_db w)"
  using indexBlock_Inr [OF assms] by auto

text \<open>
  C3. The rows of one block are meant to become visible as one atomic unit. When
  \<open>indexBlock\<close> returns for block 1 of the example node, the transaction has committed
  the Block row and the Transaction row, and the EventLog, Token and TokenTransfer rows
  of the block are not in the store: they are written when the pending \<open>indexReceipt\<close>
  call runs. A whole sync iteration ends likewise, with the cursor at 3, no EventLog or
  TokenTransfer row, and the receipt of block 1 still pending.
\<close>

theorem indexBlock_commits_without_logs:
  "indexBlock example_node 1 fresh_world =
     Inr \<lparr>w_db = empty_store\<lparr>blocks := [example_block_row], transactions := [example_tx_row]\<rparr>,
          w_pending = [(''tx1'', example_block1)]\<rparr>
   \<and> w_db (settle example_node
        \<lparr>w_db = empty_store\<lparr>blocks := [example_block_row], transactions := [example_tx_row]\<rparr>,
          w_pending = [(''tx1'', example_block1)]\<rparr>) = example_store1
   \<and> (case sync_iteration example_node fresh_world of
         (out, hs, w) \<Rightarrow>
           out = Indexed 0 3 \<and> getLastIndexedBlock (w_db w) = Some 3
           \<and> event_logs (w_db w) = [] \<and> token_transfers (w_db w) = []
           \<and> w_pending w = [(''tx1'', example_block1)])"
  by code_simp

subsection \<open>Token holders\<close>


















text \<open>
  A payload that is not hexadecimal fails the request; white space at the end of a
  payload is accepted, as \<open>BigInt\<close> trims it.
\<close>

lemma example_payloads:
  "token_holders [\<lparr>sr_log = Some [\<lparr>sl_topics = Some [TRANSFER_TOPIC_BARE], sl_data = Some ''0x05''\<rparr>]\<rparr>]
     = Inl SyntaxError"
  "BigInt_hex ''ff '' = Inr 255"
  "BigInt_hex '' ff'' = Inl SyntaxError"
  by code_simp+

end
